theory Spec2Isabelle
  imports Main "HOL-Library.Word"
begin

unbundle bit_operations_syntax

section \<open>Constants of the platform (golang.org/x/sys/unix, linux)\<close>

text \<open>
  \<open>syscall.Errno\<close> is an unsigned machine word; only equality and the test against 0
  are used by the socket package, so it is a natural number here.
\<close>

type_synonym errno = nat

definition EBADF :: errno where "EBADF = 9"
definition EINVAL :: errno where "EINVAL = 22"
definition ENOSYS :: errno where "ENOSYS = 38"
definition ERESTART :: errno where "ERESTART = 85"
definition EISCONN :: errno where "EISCONN = 106"
definition ECONNREFUSED :: errno where "ECONNREFUSED = 111"
definition EALREADY :: errno where "EALREADY = 114"
definition EINPROGRESS :: errno where "EINPROGRESS = 115"

definition AF_UNIX :: int where "AF_UNIX = 1"
definition AF_INET :: int where "AF_INET = 2"
definition AF_INET6 :: int where "AF_INET6 = 10"
definition IPPROTO_TCP :: int where "IPPROTO_TCP = 6"
definition SOCK_STREAM :: int where "SOCK_STREAM = 1"
definition SOCK_CLOEXEC :: int where "SOCK_CLOEXEC = 524288"
definition O_NONBLOCK :: int where "O_NONBLOCK = 2048"

lemmas errno_defs =
  EBADF_def EINVAL_def ENOSYS_def ERESTART_def EISCONN_def ECONNREFUSED_def
  EALREADY_def EINPROGRESS_def

lemmas unix_defs =
  AF_UNIX_def AF_INET_def AF_INET6_def IPPROTO_TCP_def SOCK_STREAM_def SOCK_CLOEXEC_def
  O_NONBLOCK_def

section \<open>Values\<close>

text \<open>
  A Go \<open>error\<close> handed back by the kernel wrappers or by package \<open>net\<close>:
  \<open>errors.As(err, &errno)\<close> succeeds on \<open>Syscall e\<close> and fails on \<open>Opaque\<close>.
\<close>

datatype goerr = Syscall errno | Opaque

text \<open>The errors the socket package builds itself with \<open>fmt.Errorf\<close>, by their prefix.\<close>

datatype error =
    ErrUnsupportedDomain int
  | ErrSocketSyscall goerr
  | ErrFstatSyscall goerr
  | ErrFcntl goerr
  | ErrGetBindAddr
  | ErrCreateTempBindSocket goerr
  | ErrBindEphemeral goerr
  | ErrCreateDummyListener
  | ErrBind goerr
  | ErrExternalListen
  | ErrAcceptErrno
  | ErrStatAfterReceive goerr

text \<open>
  \<open>netip.Addr\<close>: the zero value, an IPv4 address, or an IPv6 address (which may be an
  IPv4-mapped one, \<open>::ffff:a.b.c.d\<close>). Zones are left out: every address here is one the
  kernel reported for a TCP socket of family \<open>AF_INET\<close> or \<open>AF_INET6\<close>.
\<close>

datatype Addr = AddrZero | Addr4 "32 word" | Addr6 "128 word"

type_synonym AddrPort = "Addr \<times> 16 word"

definition Is4 :: "Addr \<Rightarrow> bool" where
  "Is4 a = (case a of Addr4 _ \<Rightarrow> True | _ \<Rightarrow> False)"

definition Is6 :: "Addr \<Rightarrow> bool" where
  "Is6 a = (case a of Addr6 _ \<Rightarrow> True | _ \<Rightarrow> False)"

definition Is4In6 :: "Addr \<Rightarrow> bool" where
  "Is4In6 a = (case a of Addr6 x \<Rightarrow> drop_bit 32 x = 65535 | _ \<Rightarrow> False)"

definition IsValid :: "AddrPort \<Rightarrow> bool" where
  "IsValid ap = (fst ap \<noteq> AddrZero)"

definition zeroAddrPort :: AddrPort where
  "zeroAddrPort = (AddrZero, 0)"

section \<open>The heap of the tracer\<close>

text \<open>
  Modelled from the spec: package \<open>fd\<close> is not among the sources. The spec (3, 4.1)
  gives an FD a raw descriptor, a reference count and a closing bit; \<open>inc_ref\<close> fails once
  the closing bit is set, \<open>closing_inc_ref\<close> succeeds exactly once and sets the bit.
\<close>

record FD =
  fd_num :: int
  fd_refs :: nat
  fd_closing :: bool

datatype State = StatePassive | StateConnecting | StateConnected | StateListening | StateClosed

text \<open>
  A \<open>*net.TCPConn\<close>: its identity and the local address \<open>LocalAddr()\<close> reports
  (a \<open>net.TCPAddr\<close>: an IP of 4 or 16 bytes and a port).
\<close>

record TCPConn =
  conn_id :: nat
  conn_local :: AddrPort

text \<open>
  Modelled from the spec: \<open>proxy\<close> is declared in a file that is not among the sources.
  It owns the process-side and the external-side connection (nil until set) and the
  one-shot flag \<open>skipCloseTCP\<close> (spec 3, 4.4).
\<close>

record proxy =
  proxy_outgoing :: bool
  proxy_process :: "TCPConn option"
  proxy_external :: "TCPConn option"
  proxy_socket :: "nat option"
  proxy_skipCloseTCP :: bool

text \<open>A Go channel of proxies: its capacity and the values buffered in it, oldest first.\<close>

record chan =
  chan_cap :: nat
  chan_buf :: "nat list"
  chan_closed :: bool

text \<open>The goroutines the socket package starts and leaves running.\<close>

datatype task =
    ProxyStart nat
  | AcceptLoop nat nat nat
  | DispatchLoop nat AddrPort nat

text \<open>
  \<open>ImmutableState\<close> as socket.go uses it: a tag and one group of fields per tag, all
  present at once as in the Go struct. Pointers to \<open>fd.FD\<close> are heap addresses, nil is
  \<open>None\<close>.
\<close>

record ImmutableState =
  state :: State
  passive_bind :: "nat option"
  passive_errno :: errno
  connecting_bind :: "nat option"
  connecting_peer :: AddrPort
  connected_proxy :: "nat option"
  listening_active :: bool
  listening_lis :: "nat option"
  listening_backlog :: "AddrPort \<Rightarrow> nat option"

definition newState :: "State \<Rightarrow> ImmutableState" where
  "newState t = \<lparr> state = t, passive_bind = None, passive_errno = 0,
     connecting_bind = None, connecting_peer = zeroAddrPort, connected_proxy = None,
     listening_active = False, listening_lis = None, listening_backlog = (\<lambda>_. None) \<rparr>"

text \<open>
  Modelled from the spec: \<open>Inode\<close> is declared in a file that is not among the sources.
  It has the kernel inode number, the domain, the set of sockets aliasing it, and the
  atomically swapped pointer to the current state (spec 3, 4.2). \<open>remove\<close> tells whether
  the socket was the last alias.
\<close>

record Inode =
  Domain :: int
  Number :: nat
  inode_state :: nat
  inode_socks :: "nat set"

record Socket =
  sock_Inode :: nat
  sock_FD :: nat

text \<open>
  The tracer's memory: one total heap per kind of object, and the next unused address.
  \<open>closed_fds\<close> logs the descriptors handed to \<open>close(2)\<close>, \<open>closed_conns\<close> the
  connections and \<open>closed_lis\<close> the listeners that were closed, latest first;
  \<open>tasks\<close> are the goroutines started so far. \<open>exhausted n\<close> tells that the runtime
  finds no memory for \<open>n\<close> more pointers; it is asked where the size of an allocation is
  chosen by the target, at the buffer of \<open>Listen\<close>.
\<close>

record world =
  fds :: "nat \<Rightarrow> FD"
  states :: "nat \<Rightarrow> ImmutableState"
  inodes :: "nat \<Rightarrow> Inode"
  sockets :: "nat \<Rightarrow> Socket"
  proxies :: "nat \<Rightarrow> proxy"
  chans :: "nat \<Rightarrow> chan"
  fresh :: nat
  closed_fds :: "int list"
  closed_conns :: "nat list"
  closed_lis :: "nat list"
  tasks :: "task list"
  exhausted :: "nat \<Rightarrow> bool"

subsection \<open>fd.FD\<close>

definition NewFD :: "int \<Rightarrow> world \<Rightarrow> nat \<times> world" where
  "NewFD raw w =
     (fresh w,
      w\<lparr> fds := (fds w)(fresh w := \<lparr> fd_num = raw, fd_refs = 1, fd_closing = False \<rparr>),
         fresh := Suc (fresh w) \<rparr>)"

definition IncRef :: "nat \<Rightarrow> world \<Rightarrow> bool \<times> world" where
  "IncRef r w =
     (if fd_closing (fds w r) then (False, w)
      else (True, w\<lparr> fds := (fds w)(r := (fds w r)\<lparr> fd_refs := Suc (fd_refs (fds w r)) \<rparr>) \<rparr>))"

definition ClosingIncRef :: "nat \<Rightarrow> world \<Rightarrow> bool \<times> world" where
  "ClosingIncRef r w =
     (if fd_closing (fds w r) then (False, w)
      else (True, w\<lparr> fds := (fds w)(r := (fds w r)\<lparr> fd_refs := Suc (fd_refs (fds w r)),
                                                     fd_closing := True \<rparr>) \<rparr>))"

definition DecRef :: "nat \<Rightarrow> world \<Rightarrow> world" where
  "DecRef r w = w\<lparr> fds := (fds w)(r := (fds w r)\<lparr> fd_refs := fd_refs (fds w r) - 1 \<rparr>) \<rparr>"

definition unix_Close :: "int \<Rightarrow> world \<Rightarrow> world" where
  "unix_Close n w = w\<lparr> closed_fds := n # closed_fds w \<rparr>"

subsection \<open>The state slot of an inode\<close>

definition allocState :: "ImmutableState \<Rightarrow> world \<Rightarrow> nat \<times> world" where
  "allocState st w =
     (fresh w, w\<lparr> states := (states w)(fresh w := st), fresh := Suc (fresh w) \<rparr>)"

definition Load :: "nat \<Rightarrow> world \<Rightarrow> nat" where
  "Load i w = inode_state (inodes w i)"

text \<open>\<open>atomic.Pointer.CompareAndSwap\<close>: pointers are compared, not the states they point to.\<close>

definition CompareAndSwap :: "nat \<Rightarrow> nat \<Rightarrow> nat \<Rightarrow> world \<Rightarrow> bool \<times> world" where
  "CompareAndSwap i old new w =
     (if inode_state (inodes w i) = old
      then (True, w\<lparr> inodes := (inodes w)(i := (inodes w i)\<lparr> inode_state := new \<rparr>) \<rparr>)
      else (False, w))"

definition newInode :: "int \<Rightarrow> nat \<Rightarrow> nat \<Rightarrow> world \<Rightarrow> nat \<times> world" where
  "newInode domain ino st w =
     (fresh w,
      w\<lparr> inodes := (inodes w)(fresh w :=
            \<lparr> Domain = domain, Number = ino, inode_state = st, inode_socks = {} \<rparr>),
         fresh := Suc (fresh w) \<rparr>)"

definition inode_add :: "nat \<Rightarrow> nat \<Rightarrow> world \<Rightarrow> world" where
  "inode_add i s w =
     w\<lparr> inodes := (inodes w)(i := (inodes w i)\<lparr> inode_socks := insert s (inode_socks (inodes w i)) \<rparr>) \<rparr>"

definition inode_remove :: "nat \<Rightarrow> nat \<Rightarrow> world \<Rightarrow> bool \<times> world" where
  "inode_remove i s w =
     (inode_socks (inodes w i) - {s} = {},
      w\<lparr> inodes := (inodes w)(i := (inodes w i)\<lparr> inode_socks := inode_socks (inodes w i) - {s} \<rparr>) \<rparr>)"

section \<open>socket.go\<close>

subsection \<open>NewSocket, CreateSocket\<close>

definition NewSocket :: "nat \<Rightarrow> nat \<Rightarrow> world \<Rightarrow> nat \<times> world" where
  "NewSocket i f w =
     (let s = fresh w;
          w1 = w\<lparr> sockets := (sockets w)(s := \<lparr> sock_Inode = i, sock_FD = f \<rparr>),
                  fresh := Suc (fresh w) \<rparr>
      in (s, inode_add i s w1))"

text \<open>What the kernel answers to \<open>socket(2)\<close> and \<open>fstat(2)\<close> during \<open>CreateSocket\<close>.\<close>

record create_env =
  ce_socket :: "int \<Rightarrow> int \<Rightarrow> int \<Rightarrow> goerr + int"
  ce_fstat :: "int \<Rightarrow> goerr + nat"

definition CreateSocket :: "int \<Rightarrow> int \<Rightarrow> create_env \<Rightarrow> world \<Rightarrow> (error + nat) \<times> world" where
  "CreateSocket domain typ e w =
     (if domain \<noteq> AF_INET \<and> domain \<noteq> AF_INET6 then (Inl (ErrUnsupportedDomain domain), w)
      else
        case ce_socket e domain (typ OR SOCK_CLOEXEC) IPPROTO_TCP of
          Inl err \<Rightarrow> (Inl (ErrSocketSyscall err), w)
        | Inr ret \<Rightarrow>
            (case ce_fstat e ret of
               Inl err \<Rightarrow> (Inl (ErrFstatSyscall err), unix_Close ret w)
             | Inr ino \<Rightarrow>
                 (let (f, w1) = NewFD ret w;
                      (st, w2) = allocState (newState StatePassive) w1;
                      (i, w3) = newInode domain ino st w2;
                      (s, w4) = NewSocket i f w3
                  in (Inr s, DecRef f w4))))"

subsection \<open>Results, and what the kernel answers\<close>

text \<open>
  A method returning \<open>(syscall.Errno, error)\<close> ends in one of three ways: it returns an
  errno with a nil error, it returns an error (the errno is 0), or it does not return:
  it panics, or the runtime dies with a fatal error. Nothing in the package recovers,
  so both end the tracer; \<open>Panic\<close> stands for both.
\<close>

datatype result = Return errno | Fail error | Panic

text \<open>A function returning \<open>(T, error)\<close> whose error is handed on as it is, or which panics.\<close>

datatype 'a go = Val 'a | Raise goerr | Panicked

datatype sockaddr = SockaddrInet4 "32 word" int | SockaddrInet6 "128 word" int | SockaddrOther

definition spawn :: "task \<Rightarrow> world \<Rightarrow> world" where
  "spawn t w = w\<lparr> tasks := t # tasks w \<rparr>"

definition newProxy :: "bool \<Rightarrow> world \<Rightarrow> nat \<times> world" where
  "newProxy outgoing w =
     (fresh w,
      w\<lparr> proxies := (proxies w)(fresh w :=
            \<lparr> proxy_outgoing = outgoing, proxy_process = None, proxy_external = None,
              proxy_socket = None, proxy_skipCloseTCP = False \<rparr>),
         fresh := Suc (fresh w) \<rparr>)"

definition conn_Close :: "TCPConn option \<Rightarrow> world \<Rightarrow> world" where
  "conn_Close c w = (case c of None \<Rightarrow> w | Some x \<Rightarrow> w\<lparr> closed_conns := conn_id x # closed_conns w \<rparr>)"

definition lis_Close :: "nat \<Rightarrow> world \<Rightarrow> world" where
  "lis_Close l w = w\<lparr> closed_lis := l # closed_lis w \<rparr>"

text \<open>
  The tail of every place that closes a temp bind socket after \<open>ClosingIncRef\<close> succeeded:
  \<open>defer f.DecRef(); f.Lock(); unix.Close(f.FD())\<close>. The mutex is not modelled.
\<close>

definition closeBind :: "nat \<Rightarrow> world \<Rightarrow> world" where
  "closeBind f w = DecRef f (unix_Close (fd_num (fds w f)) w)"

definition tryCloseBind :: "nat \<Rightarrow> world \<Rightarrow> world" where
  "tryCloseBind f w = (case ClosingIncRef f w of (True, w1) \<Rightarrow> closeBind f w1 | (False, w1) \<Rightarrow> w1)"

subsection \<open>newTempBindSocket, bindEphemeral\<close>

record tempbind_env =
  tb_socket :: "goerr + int"
  tb_reuseaddr :: "goerr option"
  tb_reuseport :: "goerr option"

definition newTempBindSocket :: "int \<Rightarrow> tempbind_env \<Rightarrow> world \<Rightarrow> (goerr + nat) \<times> world" where
  "newTempBindSocket domain e w =
     (case tb_socket e of
        Inl err \<Rightarrow> (Inl err, w)
      | Inr ret \<Rightarrow>
          (let (f, w1) = NewFD ret w in
           case tb_reuseaddr e of
             Some err \<Rightarrow> (Inl err, DecRef f (unix_Close (fd_num (fds w1 f)) w1))
           | None \<Rightarrow>
               (case tb_reuseport e of
                  Some err \<Rightarrow> (Inl err, DecRef f (unix_Close (fd_num (fds w1 f)) w1))
                | None \<Rightarrow> (Inr f, DecRef f w1))))"

text \<open>
  \<open>bindEphemeral\<close>: the interface enumeration of \<open>getEphemeralLoopbackAddr\<close> only chooses
  the address handed to \<open>bind(2)\<close>; what the kernel answers is in the environment.
\<close>

record ephemeral_env =
  be_bind :: "goerr option"
  be_getsockname :: "goerr + sockaddr"

definition bindEphemeral ::
  "int \<Rightarrow> nat \<Rightarrow> bool \<Rightarrow> ephemeral_env \<Rightarrow> world \<Rightarrow> AddrPort go \<times> world" where
  "bindEphemeral domain f loopback e w =
     (case IncRef f w of
        (False, w1) \<Rightarrow> (Raise (Syscall EBADF), w1)
      | (True, w1) \<Rightarrow>
          if domain \<noteq> AF_INET \<and> domain \<noteq> AF_INET6 then (Panicked, DecRef f w1)
          else
            (case be_bind e of
               Some err \<Rightarrow> (Raise err, DecRef f w1)
             | None \<Rightarrow>
                 (case be_getsockname e of
                    Inl err \<Rightarrow> (Raise err, DecRef f w1)
                  | Inr (SockaddrInet4 a p) \<Rightarrow> (Val (Addr4 a, word_of_int p), DecRef f w1)
                  | Inr (SockaddrInet6 a p) \<Rightarrow> (Val (Addr6 a, word_of_int p), DecRef f w1)
                  | Inr SockaddrOther \<Rightarrow> (Panicked, DecRef f w1))))"

subsection \<open>Connect\<close>

text \<open>
  What happens around one \<open>Connect\<close>. \<open>cn_interfere\<close> is what the other threads of
  the tracer do to the shared memory between this call's \<open>Load\<close> of the state slot and its
  compare-and-swap; the steps of this call in between touch only objects it has just
  allocated. \<open>cn_bindaddr\<close> is the answer of \<open>prev.getRemoteBindAddr()\<close> (a method that
  is not among the sources): \<open>None\<close> for an error, else the address and the errno.
  \<open>cn_dummy\<close> is the dummy listener and its address, \<open>None\<close> when it could not be made;
  \<open>cn_loopback\<close> is the error of \<open>connect(2)\<close> to it.
\<close>

record async_env =
  as_accept :: "TCPConn option"
  as_dial :: "goerr + TCPConn"
  as_interfere :: "world \<Rightarrow> world"

record connect_env =
  cn_fcntl :: "goerr + int"
  cn_bindaddr :: "(AddrPort \<times> errno) option"
  cn_tempbind :: tempbind_env
  cn_ephemeral :: ephemeral_env
  cn_interfere :: "world \<Rightarrow> world"
  cn_dummy :: "(nat \<times> AddrPort) option"
  cn_loopback :: "goerr option"
  cn_async :: async_env

text \<open>What the goroutines of a connect in flight hold on to.\<close>

record connect_ctx =
  cx_inode :: nat
  cx_mid :: nat
  cx_bind :: nat
  cx_local :: AddrPort
  cx_proxy :: nat
  cx_dummy :: nat

text \<open>
  What is still to run when \<open>Connect\<close> returns: nothing; the whole completion goroutine
  (the results of the dummy accept and of the external dial have not been read); or only
  its tail after the send on \<open>errnoConnect\<close>, with the errno sent and \<open>shouldCloseBind\<close>.
\<close>

datatype pending = Nothing | Completion connect_ctx | Cleanup connect_ctx errno bool

text \<open>
  What a \<open>Connect\<close> holds when it comes to its compare-and-swap: the inode, the state
  it loaded, the state it wants to install, the temp bind socket of that state and whether
  this call made it (\<open>prev.passive.bind == nil\<close>), the address the dial binds to, the
  proxy, and \<open>isBlocking\<close>.
\<close>

record connect_ticket =
  ct_inode :: nat
  ct_prev :: nat
  ct_mid :: nat
  ct_bind :: nat
  ct_owned :: bool
  ct_local :: AddrPort
  ct_proxy :: nat
  ct_blocking :: bool

text \<open>Lines 130 to 146: the temp bind socket, when the passive state had none.\<close>

definition Connect_tempbind ::
  "int \<Rightarrow> connect_env \<Rightarrow> world \<Rightarrow> (result + nat \<times> AddrPort) \<times> world" where
  "Connect_tempbind domain e w =
     (case newTempBindSocket domain (cn_tempbind e) w of
        (Inl err, w1) \<Rightarrow> (Inl (Fail (ErrCreateTempBindSocket err)), w1)
      | (Inr f, w1) \<Rightarrow>
          (case bindEphemeral domain f False (cn_ephemeral e) w1 of
             (Val b, w2) \<Rightarrow> (Inr (f, b), w2)
           | (Panicked, w2) \<Rightarrow> (Inl Panic, w2)
           | (Raise err, w2) \<Rightarrow>
               (case ClosingIncRef f w2 of
                  (False, w3) \<Rightarrow> (Inl Panic, w3)
                | (True, w3) \<Rightarrow> (Inl (Fail (ErrBindEphemeral err)), closeBind f w3))))"

text \<open>
  Lines 107 to 146, on a passive inode: everything before the compare-and-swap. The state
  \<open>mid\<close> is allocated here when its fields are final (the source allocates it first and
  fills it in before publishing).
\<close>

definition Connect_begin ::
  "nat \<Rightarrow> AddrPort \<Rightarrow> nat \<Rightarrow> nat \<Rightarrow> connect_env \<Rightarrow> world \<Rightarrow> (result + connect_ticket) \<times> world" where
  "Connect_begin s addr i prev e w =
     (let (px, w1) = newProxy True w;
          w1 = w1\<lparr> proxies := (proxies w1)(px := (proxies w1 px)\<lparr> proxy_socket := Some s \<rparr>) \<rparr>
      in case cn_fcntl e of
           Inl err \<Rightarrow> (Inl (Fail (ErrFcntl err)), w1)
         | Inr flags \<Rightarrow>
             (case cn_bindaddr e of
                None \<Rightarrow> (Inl (Fail ErrGetBindAddr), w1)
              | Some (bind, errno) \<Rightarrow>
                  if errno \<noteq> 0 then (Inl (Return errno), w1)
                  else
                    (case (case passive_bind (states w1 prev) of
                             Some f \<Rightarrow> (Inr (f, bind), w1)
                           | None \<Rightarrow> Connect_tempbind (Domain (inodes w1 i)) e w1) of
                       (Inl r, w2) \<Rightarrow> (Inl r, w2)
                     | (Inr (f, bind'), w2) \<Rightarrow>
                         (let (mid, w3) = allocState ((newState StateConnecting)
                                             \<lparr> connecting_bind := Some f, connecting_peer := addr \<rparr>) w2
                          in (Inr \<lparr> ct_inode = i, ct_prev = prev, ct_mid = mid, ct_bind = f,
                                    ct_owned = (passive_bind (states w1 prev) = None),
                                    ct_local = bind', ct_proxy = px,
                                    ct_blocking = (flags AND O_NONBLOCK = 0) \<rparr>, w3)))))"

text \<open>
  The completion goroutine, lines 217 to 278: the two goroutines before it have stored
  their connections in the proxy; it picks the next state, swaps it in and sends the errno
  on \<open>errnoConnect\<close>. The result is the errno sent and \<open>shouldCloseBind\<close>.
\<close>

definition finish_next :: "connect_ctx \<Rightarrow> async_env \<Rightarrow> world \<Rightarrow> (nat option \<times> errno) \<times> world" where
  "finish_next c a w =
     (case as_accept a of
        None \<Rightarrow> ((None, ENOSYS), w)
      | Some pc \<Rightarrow>
          (case as_dial a of
             Inl Opaque \<Rightarrow> ((None, ENOSYS), w)
           | Inl (Syscall en) \<Rightarrow>
               (let (n, w1) = allocState ((newState StatePassive)
                                 \<lparr> passive_bind := connecting_bind (states w (cx_mid c)),
                                   passive_errno := en \<rparr>) w
                in ((Some n, en), w1))
           | Inr xc \<Rightarrow>
               (let (n, w1) = allocState ((newState StateConnected)
                                 \<lparr> connected_proxy := Some (cx_proxy c) \<rparr>) w
                in ((Some n, 0), spawn (ProxyStart (cx_proxy c)) w1))))"

definition finish_cas :: "connect_ctx \<Rightarrow> async_env \<Rightarrow> world \<Rightarrow> (errno \<times> bool) \<times> world" where
  "finish_cas c a w =
     (let w1 = lis_Close (cx_dummy c)
                 (w\<lparr> proxies := (proxies w)(cx_proxy c := (proxies w (cx_proxy c))
                        \<lparr> proxy_process := as_accept a,
                          proxy_external := (case as_dial a of Inl _ \<Rightarrow> None | Inr xc \<Rightarrow> Some xc) \<rparr>) \<rparr>);
          ((next, errno), w2) = finish_next c a w1
      in case next of
           None \<Rightarrow> ((errno, True), w2)
         | Some n \<Rightarrow>
             (case CompareAndSwap (cx_inode c) (cx_mid c) n w2 of
                (False, w3) \<Rightarrow> ((ERESTART, True), w3)
              | (True, w3) \<Rightarrow> ((errno, state (states w3 n) \<noteq> StatePassive), w3)))"

text \<open>Lines 280 to 298, after the send.\<close>

definition finish_cleanup :: "connect_ctx \<Rightarrow> errno \<Rightarrow> bool \<Rightarrow> world \<Rightarrow> world" where
  "finish_cleanup c errno shouldCloseBind w =
     (let w1 = (if errno \<noteq> 0
                then conn_Close (proxy_external (proxies w (cx_proxy c)))
                       (conn_Close (proxy_process (proxies w (cx_proxy c))) w)
                else w)
      in if shouldCloseBind then tryCloseBind (cx_bind c) w1 else w1)"

text \<open>
  Lines 148 to 386: the compare-and-swap to \<open>Connecting\<close>, the dummy listener, the
  loopback \<open>connect(2)\<close> and the return. On a blocking socket the call receives from
  \<open>errnoConnect\<close>, so the completion has run up to its send, after whatever the
  other threads did while the dial was in flight (\<open>as_interfere\<close>); on a non-blocking
  one nothing of \<open>cn_async\<close> is read.
\<close>

text \<open>What the goroutines started by \<open>Connect\<close> capture, with the dummy listener \<open>lis\<close>.\<close>

definition captured :: "connect_ticket \<Rightarrow> nat \<Rightarrow> connect_ctx" where
  "captured t lis = \<lparr> cx_inode = ct_inode t, cx_mid = ct_mid t, cx_bind = ct_bind t,
                       cx_local = ct_local t, cx_proxy = ct_proxy t, cx_dummy = lis \<rparr>"

definition Connect_commit ::
  "connect_ticket \<Rightarrow> connect_env \<Rightarrow> world \<Rightarrow> (result \<times> pending) \<times> world" where
  "Connect_commit t e w =
     (case CompareAndSwap (ct_inode t) (ct_prev t) (ct_mid t) w of
        (False, w1) \<Rightarrow>
          ((Return ERESTART, Nothing), if ct_owned t then tryCloseBind (ct_bind t) w1 else w1)
      | (True, w1) \<Rightarrow>
          (case cn_dummy e of
             None \<Rightarrow> ((Fail ErrCreateDummyListener, Nothing), w1)
           | Some (lis, daddr) \<Rightarrow>
               (let c = captured t lis
                in if \<not> Is4 (fst daddr) \<and> \<not> Is6 (fst daddr) then ((Panic, Completion c), w1)
                   else
                     (case cn_loopback e of
                        Some Opaque \<Rightarrow> ((Panic, Completion c), w1)
                      | lb \<Rightarrow>
                          (let dummyErrno = (case lb of Some (Syscall x) \<Rightarrow> x | _ \<Rightarrow> 0)
                           in if ct_blocking t
                              then
                                (let ((errno, scb), w2) =
                                       finish_cas c (cn_async e) (as_interfere (cn_async e) w1)
                                 in ((Return (if errno \<noteq> 0 then errno else dummyErrno),
                                      Cleanup c errno scb), w2))
                              else ((Return dummyErrno, Completion c), w1))))))"

definition Connect_passive ::
  "nat \<Rightarrow> AddrPort \<Rightarrow> nat \<Rightarrow> nat \<Rightarrow> connect_env \<Rightarrow> world \<Rightarrow> (result \<times> pending) \<times> world" where
  "Connect_passive s addr i prev e w =
     (case Connect_begin s addr i prev e w of
        (Inl r, w1) \<Rightarrow> ((r, Nothing), w1)
      | (Inr t, w1) \<Rightarrow> Connect_commit t e (cn_interfere e w1))"

definition Connect_body ::
  "nat \<Rightarrow> AddrPort \<Rightarrow> connect_env \<Rightarrow> world \<Rightarrow> (result \<times> pending) \<times> world" where
  "Connect_body s addr e w =
     (let i = sock_Inode (sockets w s); prev = Load i w
      in case state (states w prev) of
           StatePassive \<Rightarrow> Connect_passive s addr i prev e w
         | StateConnected \<Rightarrow> ((Return EISCONN, Nothing), w)
         | StateConnecting \<Rightarrow>
             (case cn_fcntl e of
                Inl err \<Rightarrow> ((Fail (ErrFcntl err), Nothing), w)
              | Inr flags \<Rightarrow>
                  if flags AND O_NONBLOCK = 0 then ((Return EALREADY, Nothing), w)
                  else ((Return EINPROGRESS, Nothing), w))
         | StateListening \<Rightarrow> ((Return EINVAL, Nothing), w)
         | StateClosed \<Rightarrow> ((Return EBADF, Nothing), w))"

text \<open>The whole method: the reference on the socket's FD is held from entry to return.\<close>

definition Connect ::
  "nat \<Rightarrow> AddrPort \<Rightarrow> connect_env \<Rightarrow> world \<Rightarrow> (result \<times> pending) \<times> world" where
  "Connect s addr e w =
     (case IncRef (sock_FD (sockets w s)) w of
        (False, w1) \<Rightarrow> ((Return EBADF, Nothing), w1)
      | (True, w1) \<Rightarrow>
          (case Connect_body s addr e w1 of
             (r, w2) \<Rightarrow> (r, DecRef (sock_FD (sockets w s)) w2)))"

subsection \<open>Bind\<close>

record bind_env =
  bn_tempbind :: tempbind_env
  bn_bind :: "goerr option"
  bn_interfere :: "world \<Rightarrow> world"

text \<open>
  What a \<open>Bind\<close> holds when it comes to its compare-and-swap: the inode, the state it
  loaded, the state it wants to install, the temp bind socket and whether this call is to
  close it when the swap is lost, and the errno of \<open>bind(2)\<close> (0 when it succeeded).
\<close>

record bind_ticket =
  bt_inode :: nat
  bt_prev :: nat
  bt_next :: nat
  bt_fd :: nat
  bt_owned :: bool
  bt_errno :: errno

text \<open>
  Lines 430 to 446 and 453, with the reference on the temp bind socket \<open>f\<close> held:
  \<open>bind(2)\<close> and the state to install. For a domain that is neither \<open>AF_INET\<close> nor
  \<open>AF_INET6\<close> the sockaddr stays nil and \<open>unix.Bind\<close> dereferences it. When
  \<open>bind(2)\<close> failed this call's own temp socket is closed before the swap (line 440).
\<close>

definition Bind_bound ::
  "nat \<Rightarrow> nat \<Rightarrow> nat option \<Rightarrow> nat \<Rightarrow> int \<Rightarrow> bind_env \<Rightarrow> world \<Rightarrow> (result + bind_ticket) \<times> world" where
  "Bind_bound i prev pb f domain e w =
     (if domain \<noteq> AF_INET \<and> domain \<noteq> AF_INET6 then (Inl Panic, w)
      else
        case bn_bind e of
          Some err \<Rightarrow>
            (let w1 = (if pb = None then unix_Close (fd_num (fds w f)) w else w)
             in case err of
                  Opaque \<Rightarrow> (Inl (Fail (ErrBind err)), w1)
                | Syscall en \<Rightarrow>
                    (let (next, w2) = allocState ((newState StatePassive)
                                         \<lparr> passive_bind := pb, passive_errno := en \<rparr>) w1
                     in (Inr \<lparr> bt_inode = i, bt_prev = prev, bt_next = next, bt_fd = f,
                               bt_owned = False, bt_errno = en \<rparr>, w2)))
        | None \<Rightarrow>
            (let (next, w1) = allocState ((newState StatePassive) \<lparr> passive_bind := Some f \<rparr>) w
             in (Inr \<lparr> bt_inode = i, bt_prev = prev, bt_next = next, bt_fd = f,
                       bt_owned = (pb = None), bt_errno = 0 \<rparr>, w1)))"

text \<open>
  Lines 447 to 450 and 453 to 461: the compare-and-swap. Only the swap after a successful
  \<open>bind(2)\<close> closes this call's own temp socket when it is lost.
\<close>

definition Bind_commit :: "bind_ticket \<Rightarrow> world \<Rightarrow> result \<times> world" where
  "Bind_commit t w =
     (case CompareAndSwap (bt_inode t) (bt_prev t) (bt_next t) w of
        (False, w1) \<Rightarrow>
          (Return ERESTART,
           if bt_owned t then unix_Close (fd_num (fds w1 (bt_fd t))) w1 else w1)
      | (True, w1) \<Rightarrow> (Return (bt_errno t), w1))"

text \<open>Lines 408 to 428: the check of the address against the domain, the temp socket.\<close>

definition Bind_begin ::
  "nat \<Rightarrow> AddrPort \<Rightarrow> nat \<Rightarrow> nat \<Rightarrow> bind_env \<Rightarrow> world \<Rightarrow> (result + bind_ticket) \<times> world" where
  "Bind_begin s addr i prev e w =
     (let domain = Domain (inodes w i); pb = passive_bind (states w prev)
      in if domain = AF_INET \<and> \<not> Is4 (fst addr) then (Inl (Return EINVAL), w)
         else if domain = AF_INET6 \<and> \<not> Is6 (fst addr) then (Inl (Return EINVAL), w)
         else
           case (case pb of
                   Some f \<Rightarrow> (Inr f, w)
                 | None \<Rightarrow> newTempBindSocket domain (bn_tempbind e) w) of
             (Inl err, w1) \<Rightarrow> (Inl (Fail (ErrCreateTempBindSocket err)), w1)
           | (Inr f, w1) \<Rightarrow>
               (case IncRef f w1 of
                  (False, w2) \<Rightarrow> (Inl (Return EBADF), w2)
                | (True, w2) \<Rightarrow>
                    (case Bind_bound i prev pb f domain e w2 of
                       (Inl r, w3) \<Rightarrow> (Inl r, DecRef f w3)
                     | (Inr t, w3) \<Rightarrow> (Inr t, w3))))"

definition Bind_passive ::
  "nat \<Rightarrow> AddrPort \<Rightarrow> nat \<Rightarrow> nat \<Rightarrow> bind_env \<Rightarrow> world \<Rightarrow> result \<times> world" where
  "Bind_passive s addr i prev e w =
     (case Bind_begin s addr i prev e w of
        (Inl r, w1) \<Rightarrow> (r, w1)
      | (Inr t, w1) \<Rightarrow>
          (case Bind_commit t (bn_interfere e w1) of
             (r, w2) \<Rightarrow> (r, DecRef (bt_fd t) w2)))"

definition Bind_body :: "nat \<Rightarrow> AddrPort \<Rightarrow> bind_env \<Rightarrow> world \<Rightarrow> result \<times> world" where
  "Bind_body s addr e w =
     (let i = sock_Inode (sockets w s); prev = Load i w
      in case state (states w prev) of
           StatePassive \<Rightarrow> Bind_passive s addr i prev e w
         | StateConnected \<Rightarrow> (Return EINVAL, w)
         | StateConnecting \<Rightarrow> (Return EINVAL, w)
         | StateListening \<Rightarrow> (Return EINVAL, w)
         | StateClosed \<Rightarrow> (Return EBADF, w))"

definition Bind :: "nat \<Rightarrow> AddrPort \<Rightarrow> bind_env \<Rightarrow> world \<Rightarrow> result \<times> world" where
  "Bind s addr e w =
     (case IncRef (sock_FD (sockets w s)) w of
        (False, w1) \<Rightarrow> (Return EBADF, w1)
      | (True, w1) \<Rightarrow>
          (case Bind_body s addr e w1 of
             (r, w2) \<Rightarrow> (r, DecRef (sock_FD (sockets w s)) w2)))"

subsection \<open>Errno\<close>

definition Errno :: "nat \<Rightarrow> world \<Rightarrow> errno \<times> world" where
  "Errno s w =
     (case IncRef (sock_FD (sockets w s)) w of
        (False, w1) \<Rightarrow> (EBADF, w1)
      | (True, w1) \<Rightarrow>
          (let cur = states w1 (Load (sock_Inode (sockets w1 s)) w1)
           in ((case state cur of StatePassive \<Rightarrow> passive_errno cur | _ \<Rightarrow> 0),
               DecRef (sock_FD (sockets w s)) w1)))"

subsection \<open>Listen\<close>

text \<open>
  \<open>backlog\<close> is a Go \<open>int\<close>, 64 bits on the platforms the tracer is built for; its
  double wraps around. \<open>ln_listen\<close> is the external listener \<open>net.Listen\<close> gives,
  or its error.
\<close>

record listen_env =
  ln_ephemeral :: ephemeral_env
  ln_bindaddr :: "(AddrPort \<times> errno) option"
  ln_listen :: "goerr + nat"
  ln_interfere :: "world \<Rightarrow> world"

definition makeChan :: "nat \<Rightarrow> world \<Rightarrow> nat \<times> world" where
  "makeChan n w =
     (fresh w,
      w\<lparr> chans := (chans w)(fresh w := \<lparr> chan_cap = n, chan_buf = [], chan_closed = False \<rparr>),
         fresh := Suc (fresh w) \<rparr>)"

text \<open>
  \<open>make(chan *proxy, n)\<close> for a Go \<open>int\<close> \<open>n\<close>, as \<open>runtime.makechan\<close> decides it on
  64-bit Linux: it panics (\<open>size out of range\<close>) when \<open>n\<close> is negative or when the buffer
  of \<open>n\<close> pointers of 8 bytes does not fit under \<open>maxAlloc\<close>, \<open>2 ^ 48\<close> bytes, less the
  channel header (\<open>hchanSize\<close>, 104 bytes since Go 1.23); and the runtime dies
  (\<open>out of memory\<close>) when it finds no memory for the buffer. In both cases the \<open>make\<close>
  does not return.
\<close>

definition maxAlloc :: int where "maxAlloc = 281474976710656"
definition hchanSize :: int where "hchanSize = 104"

definition make_refused :: "world \<Rightarrow> 64 word \<Rightarrow> bool" where
  "make_refused w n =
     (sint n < 0 \<or> maxAlloc - hchanSize < 8 * sint n \<or> exhausted w (unat n))"

text \<open>
  What a \<open>Listen\<close> holds when it comes to its compare-and-swap: the inode, the state it
  loaded, the state it wants to install, the external listener, the backlog after line
  516, and the ephemeral loopback address of the target's socket.
\<close>

record listen_ticket =
  lt_inode :: nat
  lt_prev :: nat
  lt_next :: nat
  lt_lis :: nat
  lt_backlog :: "64 word"
  lt_ephemeral :: AddrPort

text \<open>Lines 514 to 575, on a passive inode.\<close>

definition Listen_begin ::
  "nat \<Rightarrow> 64 word \<Rightarrow> nat \<Rightarrow> nat \<Rightarrow> listen_env \<Rightarrow> world \<Rightarrow> (result + listen_ticket) \<times> world" where
  "Listen_begin s backlog0 i prev e w =
     (let backlog = (if backlog0 <s 8 then 8 else backlog0)
      in case bindEphemeral (Domain (inodes w i)) (sock_FD (sockets w s)) True (ln_ephemeral e) w of
           (Panicked, w1) \<Rightarrow> (Inl Panic, w1)
         | (Raise err, w1) \<Rightarrow> (Inl (Fail (ErrBindEphemeral err)), w1)
         | (Val ephemeral, w1) \<Rightarrow>
             (case ln_bindaddr e of
                None \<Rightarrow> (Inl (Fail ErrGetBindAddr), w1)
              | Some (bind, errno) \<Rightarrow>
                  if errno \<noteq> 0 then (Inl (Return errno), w1)
                  else
                    (case ln_listen e of
                       Inl (Syscall en) \<Rightarrow> (Inl (Return en), w1)
                     | Inl Opaque \<Rightarrow> (Inl (Fail ErrExternalListen), w1)
                     | Inr lis \<Rightarrow>
                         (let w2 = (case passive_bind (states w1 prev) of
                                      None \<Rightarrow> w1
                                    | Some f \<Rightarrow> tryCloseBind f w1);
                              (next, w3) = allocState ((newState StateListening)
                                              \<lparr> listening_active := True, listening_lis := Some lis \<rparr>) w2
                          in (Inr \<lparr> lt_inode = i, lt_prev = prev, lt_next = next, lt_lis = lis,
                                    lt_backlog = backlog, lt_ephemeral = ephemeral \<rparr>, w3)))))"

text \<open>Lines 576 to 633: the compare-and-swap, the buffer, the two loops.\<close>

definition Listen_commit :: "listen_ticket \<Rightarrow> world \<Rightarrow> result \<times> world" where
  "Listen_commit t w =
     (case CompareAndSwap (lt_inode t) (lt_prev t) (lt_next t) w of
        (False, w1) \<Rightarrow> (Return ERESTART, lis_Close (lt_lis t) w1)
      | (True, w1) \<Rightarrow>
          if make_refused w1 (lt_backlog t * 2) then (Panic, w1)
          else
            (let (buffer, w2) = makeChan (unat (lt_backlog t * 2)) w1
             in (Return 0,
                 spawn (DispatchLoop buffer (lt_ephemeral t) (lt_next t))
                   (spawn (AcceptLoop (lt_lis t) (lt_next t) buffer) w2))))"

definition Listen_passive ::
  "nat \<Rightarrow> 64 word \<Rightarrow> nat \<Rightarrow> nat \<Rightarrow> listen_env \<Rightarrow> world \<Rightarrow> result \<times> world" where
  "Listen_passive s backlog i prev e w =
     (case Listen_begin s backlog i prev e w of
        (Inl r, w1) \<Rightarrow> (r, w1)
      | (Inr t, w1) \<Rightarrow> Listen_commit t (ln_interfere e w1))"

definition Listen_body :: "nat \<Rightarrow> 64 word \<Rightarrow> listen_env \<Rightarrow> world \<Rightarrow> result \<times> world" where
  "Listen_body s backlog e w =
     (let i = sock_Inode (sockets w s); prev = Load i w
      in case state (states w prev) of
           StatePassive \<Rightarrow> Listen_passive s backlog i prev e w
         | StateConnected \<Rightarrow> (Return EINVAL, w)
         | StateConnecting \<Rightarrow> (Return EINVAL, w)
         | StateListening \<Rightarrow> (Return 0, w)
         | StateClosed \<Rightarrow> (Return EBADF, w))"

definition Listen :: "nat \<Rightarrow> 64 word \<Rightarrow> listen_env \<Rightarrow> world \<Rightarrow> result \<times> world" where
  "Listen s backlog e w =
     (case IncRef (sock_FD (sockets w s)) w of
        (False, w1) \<Rightarrow> (Return EBADF, w1)
      | (True, w1) \<Rightarrow>
          (case Listen_body s backlog e w1 of
             (r, w2) \<Rightarrow> (r, DecRef (sock_FD (sockets w s)) w2)))"

subsection \<open>Accept\<close>

text \<open>
  The text of an address, as \<open>String()\<close> prints it and \<open>ParseAddrPort\<close> reads it, by
  its shape: \<open>a.b.c.d:port\<close>, \<open>[v6]:port\<close> (an IPv4-mapped address prints as
  \<open>[::ffff:a.b.c.d]:port\<close>), \<open>:port\<close> for a \<open>net.TCPAddr\<close> without IP, and
  \<open>invalid AddrPort\<close>. These are functions of Go's \<open>net\<close> and \<open>net/netip\<close>:
  \<open>net.IP.String\<close> prints a mapped address in the dotted form, \<open>netip\<close> does not.
\<close>

datatype addrtext = TextV4 "32 word" "16 word" | TextV6 "128 word" "16 word"
  | TextNoHost "16 word" | TextInvalid

definition TCPAddr_String :: "AddrPort \<Rightarrow> addrtext" where
  "TCPAddr_String ap =
     (case fst ap of
        AddrZero \<Rightarrow> TextNoHost (snd ap)
      | Addr4 a \<Rightarrow> TextV4 a (snd ap)
      | Addr6 x \<Rightarrow> if Is4In6 (Addr6 x) then TextV4 (ucast x) (snd ap) else TextV6 x (snd ap))"

definition AddrPort_String :: "AddrPort \<Rightarrow> addrtext" where
  "AddrPort_String ap =
     (case fst ap of
        AddrZero \<Rightarrow> TextInvalid
      | Addr4 a \<Rightarrow> TextV4 a (snd ap)
      | Addr6 x \<Rightarrow> TextV6 x (snd ap))"

definition ParseAddrPort :: "addrtext \<Rightarrow> AddrPort option" where
  "ParseAddrPort s =
     (case s of
        TextV4 a p \<Rightarrow> Some (Addr4 a, p)
      | TextV6 x p \<Rightarrow> Some (Addr6 x, p)
      | _ \<Rightarrow> None)"

text \<open>
  Lines 617 to 619 and 671 to 673:
  \<open>if addr.Addr().Is4In6() { addr = AddrPortFrom(AddrFrom4(addr.Addr().As4()), addr.Port()) }\<close>.
\<close>

definition unmapped :: "AddrPort \<Rightarrow> AddrPort" where
  "unmapped ap =
     (case fst ap of
        Addr6 x \<Rightarrow> if Is4In6 (Addr6 x) then (Addr4 (ucast x), snd ap) else ap
      | _ \<Rightarrow> ap)"

text \<open>Lines 664 to 670: the address of the sockaddr \<open>accept4\<close> reported.\<close>

definition sockaddr_AddrPort :: "sockaddr \<Rightarrow> AddrPort" where
  "sockaddr_AddrPort sa =
     (case sa of
        SockaddrInet4 a p \<Rightarrow> (Addr4 a, word_of_int p)
      | SockaddrInet6 x p \<Rightarrow> (Addr6 x, word_of_int p)
      | SockaddrOther \<Rightarrow> zeroAddrPort)"

text \<open>
  The backlog of a listening state is a \<open>sync.Map\<close> from addresses to channels.
  \<open>LoadOrStore\<close> and \<open>Delete\<close> are atomic each, not together.
\<close>

definition backlog_LoadOrStore :: "nat \<Rightarrow> AddrPort \<Rightarrow> nat \<Rightarrow> world \<Rightarrow> (nat \<times> bool) \<times> world" where
  "backlog_LoadOrStore st k ch w =
     (case listening_backlog (states w st) k of
        Some found \<Rightarrow> ((found, True), w)
      | None \<Rightarrow>
          ((ch, False),
           w\<lparr> states := (states w)(st := (states w st)
                 \<lparr> listening_backlog := (listening_backlog (states w st))(k := Some ch) \<rparr>) \<rparr>))"

definition backlog_Delete :: "nat \<Rightarrow> AddrPort \<Rightarrow> world \<Rightarrow> world" where
  "backlog_Delete st k w =
     w\<lparr> states := (states w)(st := (states w st)
           \<lparr> listening_backlog := (listening_backlog (states w st))(k := None) \<rparr>) \<rparr>"

record accept_env =
  ac_accept4 :: "goerr + int \<times> sockaddr"
  ac_fstat :: "goerr + nat"

text \<open>
  \<open>Accept\<close> returns a socket, or no socket and an errno or error, or it panics.
  \<open>Receiving cur ch addr ret loaded\<close> is the call after its \<open>LoadOrStore\<close>: it holds the
  listening state, the channel it will receive from, the address \<open>accept4\<close> reported and
  the new descriptor; \<open>loaded\<close> tells that \<open>Delete\<close> comes next.
\<close>

datatype accepted = Child nat | NoChild result | Receiving nat nat AddrPort int bool

definition Accept_listening :: "nat \<Rightarrow> accept_env \<Rightarrow> world \<Rightarrow> accepted \<times> world" where
  "Accept_listening cur e w =
     (case ac_accept4 e of
        Inl Opaque \<Rightarrow> (NoChild (Fail ErrAcceptErrno), w)
      | Inl (Syscall en) \<Rightarrow> (NoChild (Return en), w)
      | Inr (ret, sa) \<Rightarrow>
          (let addr = unmapped (sockaddr_AddrPort sa);
               (ch, w1) = makeChan 1 w;
               ((ch', loaded), w2) = backlog_LoadOrStore cur addr ch w1
           in (Receiving cur ch' addr ret loaded, w2)))"

text \<open>
  Lines 637 to 676. The reference on the socket's FD taken at entry is given back when
  the call returns; it is still held while the call waits for its proxy.
\<close>

definition Accept_begin :: "nat \<Rightarrow> int \<Rightarrow> accept_env \<Rightarrow> world \<Rightarrow> accepted \<times> world" where
  "Accept_begin s flags e w =
     (let f = sock_FD (sockets w s)
      in case IncRef f w of
           (False, w1) \<Rightarrow> (NoChild (Return EBADF), w1)
         | (True, w1) \<Rightarrow>
             (let cur = Load (sock_Inode (sockets w1 s)) w1
              in case state (states w1 cur) of
                   StatePassive \<Rightarrow> (NoChild (Return EINVAL), DecRef f w1)
                 | StateConnected \<Rightarrow> (NoChild (Return EINVAL), DecRef f w1)
                 | StateConnecting \<Rightarrow> (NoChild (Return EINVAL), DecRef f w1)
                 | StateClosed \<Rightarrow> (NoChild (Return EBADF), DecRef f w1)
                 | StateListening \<Rightarrow>
                     if \<not> listening_active (states w1 cur) then (NoChild (Return EINVAL), DecRef f w1)
                     else
                       (case Accept_listening cur e w1 of
                          (Receiving c ch a r l, w2) \<Rightarrow> (Receiving c ch a r l, w2)
                        | (r, w2) \<Rightarrow> (r, DecRef f w2))))"

text \<open>
  Lines 681 to 705: the receive from the channel, \<open>None\<close> while the channel is empty,
  the assertion on the proxy received, and the child socket.
\<close>

definition Accept_child :: "nat \<Rightarrow> nat \<Rightarrow> int \<Rightarrow> accept_env \<Rightarrow> world \<Rightarrow> accepted \<times> world" where
  "Accept_child s p ret e w =
     (case ac_fstat e of
        Inl err \<Rightarrow> (NoChild (Fail (ErrStatAfterReceive err)), unix_Close ret w)
      | Inr ino \<Rightarrow>
          (let (nf, w1) = NewFD ret w;
               (st, w2) = allocState ((newState StateConnected) \<lparr> connected_proxy := Some p \<rparr>) w1;
               (ni, w3) = newInode (Domain (inodes w (sock_Inode (sockets w s)))) ino st w2;
               (child, w4) = NewSocket ni nf w3;
               w5 = w4\<lparr> proxies := (proxies w4)(p := (proxies w4 p)\<lparr> proxy_socket := Some child \<rparr>) \<rparr>
           in (Child child, DecRef nf (spawn (ProxyStart p) w5))))"

definition Accept_end ::
  "nat \<Rightarrow> nat \<Rightarrow> AddrPort \<Rightarrow> int \<Rightarrow> accept_env \<Rightarrow> world \<Rightarrow> (accepted \<times> world) option" where
  "Accept_end s ch addr ret e w =
     (case chan_buf (chans w ch) of
        [] \<Rightarrow> None
      | p # rest \<Rightarrow>
          (let f = sock_FD (sockets w s);
               w1 = w\<lparr> chans := (chans w)(ch := (chans w ch)\<lparr> chan_buf := rest \<rparr>) \<rparr>
           in Some
                (case proxy_process (proxies w1 p) of
                   None \<Rightarrow> (NoChild Panic, DecRef f w1)
                 | Some pc \<Rightarrow>
                     if TCPAddr_String (conn_local pc) \<noteq> AddrPort_String addr
                     then (NoChild Panic, DecRef f w1)
                     else
                       (case Accept_child s p ret e w1 of
                          (r, w2) \<Rightarrow> (r, DecRef f w2)))))"

subsection \<open>The accept loop and the dispatch loop\<close>

text \<open>A send on a buffered channel: \<open>None\<close> while the buffer is full.\<close>

definition chan_send :: "nat \<Rightarrow> nat \<Rightarrow> world \<Rightarrow> world option" where
  "chan_send ch p w =
     (if length (chan_buf (chans w ch)) < chan_cap (chans w ch)
      then Some (w\<lparr> chans := (chans w)(ch := (chans w ch)\<lparr> chan_buf := chan_buf (chans w ch) @ [p] \<rparr>) \<rparr>)
      else None)"

text \<open>
  Lines 590 to 595: a connection accepted on the external listener becomes a new proxy,
  sent on the buffer.
\<close>

definition AcceptLoop_push :: "nat \<Rightarrow> TCPConn \<Rightarrow> world \<Rightarrow> world option" where
  "AcceptLoop_push buffer xc w =
     (let (p, w1) = newProxy False w
      in chan_send buffer p
           (w1\<lparr> proxies := (proxies w1)(p := (proxies w1 p)\<lparr> proxy_external := Some xc \<rparr>) \<rparr>))"

text \<open>
  Lines 586 to 588 and 596 to 601: when \<open>lis.Accept\<close> fails the accept loop returns, and
  its deferred calls close the buffer, clear \<open>active\<close> in the listening state and close
  the external listener.
\<close>

definition AcceptLoop_exit :: "nat \<Rightarrow> nat \<Rightarrow> nat \<Rightarrow> world \<Rightarrow> world" where
  "AcceptLoop_exit lis st buffer w =
     lis_Close lis
       (w\<lparr> chans := (chans w)(buffer := (chans w buffer)\<lparr> chan_closed := True \<rparr>),
           states := (states w)(st := (states w st)\<lparr> listening_active := False \<rparr>) \<rparr>)"

text \<open>
  Line 606: the dispatch loop receives the next proxy of the buffer, also after the buffer
  was closed, until it is empty.
\<close>

definition DispatchLoop_take :: "nat \<Rightarrow> world \<Rightarrow> (nat \<times> world) option" where
  "DispatchLoop_take buffer w =
     (case chan_buf (chans w buffer) of
        [] \<Rightarrow> None
      | p # rest \<Rightarrow>
          Some (p, w\<lparr> chans := (chans w)(buffer := (chans w buffer)\<lparr> chan_buf := rest \<rparr>) \<rparr>))"

text \<open>
  Lines 608 to 625, the goroutine of one proxy: the dial of the ephemeral address
  (\<open>None\<close> when it failed), the address parsed from the text of the local address of the
  process-side connection (\<open>MustParseAddrPort\<close> panics when it does not parse), and the
  \<open>LoadOrStore\<close> on the backlog. \<open>Registered ch addr loaded\<close> holds the channel to send
  on; \<open>loaded\<close> tells that \<open>Delete\<close> comes next.
\<close>

datatype dispatched = DialFailed | ParsePanic | Registered nat AddrPort bool

definition Dispatch_dial :: "nat \<Rightarrow> nat \<Rightarrow> TCPConn option \<Rightarrow> world \<Rightarrow> dispatched \<times> world" where
  "Dispatch_dial st p dial w =
     (case dial of
        None \<Rightarrow> (DialFailed, conn_Close (proxy_external (proxies w p)) w)
      | Some pc \<Rightarrow>
          (let w1 = w\<lparr> proxies := (proxies w)(p := (proxies w p)\<lparr> proxy_process := Some pc \<rparr>) \<rparr>
           in case ParseAddrPort (TCPAddr_String (conn_local pc)) of
                None \<Rightarrow> (ParsePanic, w1)
              | Some a \<Rightarrow>
                  (let addr = unmapped a;
                       (ch, w2) = makeChan 1 w1;
                       ((ch', loaded), w3) = backlog_LoadOrStore st addr ch w2
                   in (Registered ch' addr loaded, w3))))"

subsection \<open>Close\<close>

text \<open>
  \<open>cl_close\<close> is the error of \<open>close(2)\<close> on the socket's descriptor. The loop of lines
  729 to 739 runs again each time another thread swaps the slot between its \<open>Load\<close> and
  its compare-and-swap: \<open>cl_interfere\<close> lists what the others do in each such round,
  and after the last of them nothing interferes.
\<close>

record close_env =
  cl_close :: "goerr option"
  cl_interfere :: "(world \<Rightarrow> world) list"

fun Close_loop :: "nat \<Rightarrow> (world \<Rightarrow> world) list \<Rightarrow> world \<Rightarrow> nat option \<times> world" where
  "Close_loop i [] w =
     (let prev = Load i w
      in if state (states w prev) = StateClosed then (None, w)
         else
           (let (next, w1) = allocState (newState StateClosed) w
            in (Some prev, snd (CompareAndSwap i prev next w1))))"
| "Close_loop i (h # hs) w =
     (let prev = Load i w
      in if state (states w prev) = StateClosed then (None, w)
         else
           (let (next, w1) = allocState (newState StateClosed) w
            in case CompareAndSwap i prev next (h w1) of
                 (True, w2) \<Rightarrow> (Some prev, w2)
               | (False, w2) \<Rightarrow> Close_loop i hs w2))"

text \<open>Lines 741 to 784: release what the previous state owned.\<close>

definition Close_release :: "nat \<Rightarrow> world \<Rightarrow> result \<times> world" where
  "Close_release prev w =
     (let st = states w prev
      in case state st of
           StatePassive \<Rightarrow>
             (Return 0, case passive_bind st of None \<Rightarrow> w | Some b \<Rightarrow> tryCloseBind b w)
         | StateConnected \<Rightarrow>
             (case connected_proxy st of
                None \<Rightarrow> (Panic, w)
              | Some px \<Rightarrow>
                  if \<not> proxy_skipCloseTCP (proxies w px)
                  then (Return 0,
                        w\<lparr> proxies := (proxies w)(px := (proxies w px)\<lparr> proxy_skipCloseTCP := True \<rparr>) \<rparr>)
                  else (Return 0,
                        conn_Close (proxy_external (proxies w px))
                          (conn_Close (proxy_process (proxies w px)) w)))
         | StateConnecting \<Rightarrow>
             (case connecting_bind st of
                None \<Rightarrow> (Panic, w)
              | Some b \<Rightarrow> (Return 0, tryCloseBind b w))
         | StateListening \<Rightarrow>
             if listening_active st
             then (case listening_lis st of
                     None \<Rightarrow> (Panic, w)
                   | Some l \<Rightarrow>
                       (Return 0,
                        lis_Close l (w\<lparr> states := (states w)(prev := st\<lparr> listening_active := False \<rparr>) \<rparr>)))
             else (Return 0, w)
         | StateClosed \<Rightarrow> (Return 0, w))"

definition Close_body :: "nat \<Rightarrow> close_env \<Rightarrow> world \<Rightarrow> result \<times> world" where
  "Close_body s e w =
     (let f = sock_FD (sockets w s); i = sock_Inode (sockets w s);
          w1 = unix_Close (fd_num (fds w f)) w
      in case cl_close e of
           Some Opaque \<Rightarrow> (Panic, w1)
         | Some (Syscall en) \<Rightarrow> (Return en, w1)
         | None \<Rightarrow>
             (case inode_remove i s w1 of
                (False, w2) \<Rightarrow> (Return 0, w2)
              | (True, w2) \<Rightarrow>
                  (case Close_loop i (cl_interfere e) w2 of
                     (None, w3) \<Rightarrow> (Panic, w3)
                   | (Some prev, w3) \<Rightarrow> Close_release prev w3)))"

definition Close :: "nat \<Rightarrow> close_env \<Rightarrow> world \<Rightarrow> result \<times> world" where
  "Close s e w =
     (case ClosingIncRef (sock_FD (sockets w s)) w of
        (False, w1) \<Rightarrow> (Return EBADF, w1)
      | (True, w1) \<Rightarrow>
          (case Close_body s e w1 of
             (r, w2) \<Rightarrow> (r, DecRef (sock_FD (sockets w s)) w2)))"

section \<open>Sample worlds\<close>

text \<open>
  An empty memory whose addresses start at 10 and whose runtime finds room for up to
  4294967296 pointers at once, a kernel that grants everything, and the
  memory after one \<open>socket(AF_INET, SOCK_STREAM)\<close>: the FD object at address 10
  (descriptor 3), the passive state at 11, the inode at 12 and the socket at 13.
\<close>

definition world0 :: world where
  "world0 = \<lparr> fds = (\<lambda>_. \<lparr> fd_num = - 1, fd_refs = 0, fd_closing = False \<rparr>),
     states = (\<lambda>_. newState StateClosed),
     inodes = (\<lambda>_. \<lparr> Domain = 0, Number = 0, inode_state = 0, inode_socks = {} \<rparr>),
     sockets = (\<lambda>_. \<lparr> sock_Inode = 0, sock_FD = 0 \<rparr>),
     proxies = (\<lambda>_. \<lparr> proxy_outgoing = False, proxy_process = None, proxy_external = None,
                       proxy_socket = None, proxy_skipCloseTCP = False \<rparr>),
     chans = (\<lambda>_. \<lparr> chan_cap = 0, chan_buf = [], chan_closed = False \<rparr>),
     fresh = 10, closed_fds = [], closed_conns = [], closed_lis = [], tasks = [],
     exhausted = (\<lambda>n. 4294967296 < n) \<rparr>"

definition kernel_ok :: create_env where
  "kernel_ok = \<lparr> ce_socket = (\<lambda>_ _ _. Inr 3), ce_fstat = (\<lambda>_. Inr 100) \<rparr>"

definition world1 :: world where
  "world1 = snd (CreateSocket AF_INET SOCK_STREAM kernel_ok world0)"

text \<open>
  Environments in which the kernel grants everything and no other thread interferes.
  The loopback address is 127.0.0.1, the peer 93.184.216.34:80.
\<close>

definition tempbind_ok :: tempbind_env where
  "tempbind_ok = \<lparr> tb_socket = Inr 4, tb_reuseaddr = None, tb_reuseport = None \<rparr>"

definition ephemeral_ok :: ephemeral_env where
  "ephemeral_ok = \<lparr> be_bind = None, be_getsockname = Inr (SockaddrInet4 2130706433 40000) \<rparr>"

definition peer :: AddrPort where
  "peer = (Addr4 1572395042, 80)"

definition connect_quiet :: "int \<Rightarrow> async_env \<Rightarrow> connect_env" where
  "connect_quiet flags a =
     \<lparr> cn_fcntl = Inr flags, cn_bindaddr = Some (zeroAddrPort, 0), cn_tempbind = tempbind_ok,
       cn_ephemeral = ephemeral_ok, cn_interfere = (\<lambda>x. x),
       cn_dummy = Some (7, (Addr4 2130706433, 40002)), cn_loopback = None, cn_async = a \<rparr>"

definition async_refused :: async_env where
  "async_refused =
     \<lparr> as_accept = Some \<lparr> conn_id = 1, conn_local = (Addr4 2130706433, 40002) \<rparr>,
       as_dial = Inl (Syscall ECONNREFUSED), as_interfere = (\<lambda>x. x) \<rparr>"

definition bind_quiet :: bind_env where
  "bind_quiet = \<lparr> bn_tempbind = tempbind_ok, bn_bind = None, bn_interfere = (\<lambda>x. x) \<rparr>"

definition listen_quiet :: listen_env where
  "listen_quiet = \<lparr> ln_ephemeral = ephemeral_ok, ln_bindaddr = Some (zeroAddrPort, 0),
     ln_listen = Inr 9, ln_interfere = (\<lambda>x. x) \<rparr>"

definition accept_ok :: accept_env where
  "accept_ok = \<lparr> ac_accept4 = Inr (5, SockaddrInet4 2130706433 40003), ac_fstat = Inr 101 \<rparr>"

definition close_quiet :: close_env where
  "close_quiet = \<lparr> cl_close = None, cl_interfere = [] \<rparr>"

text \<open>The memory after \<open>close\<close> of the only descriptor of that socket.\<close>

definition world_closed :: world where
  "world_closed = snd (Close 13 close_quiet world1)"

text \<open>
  A non-blocking \<open>connect\<close> of that socket to the peer: the proxy is at 14, the temp bind
  socket at 15, the state \<open>mid\<close> at 16. Then its dial is refused, and the completion
  goroutine swaps in the passive state at 17.
\<close>

definition world_connecting :: world where
  "world_connecting = snd (Connect 13 peer (connect_quiet O_NONBLOCK async_refused) world1)"

definition ctx1 :: connect_ctx where
  "ctx1 = \<lparr> cx_inode = 12, cx_mid = 16, cx_bind = 15, cx_local = (Addr4 2130706433, 40000),
            cx_proxy = 14, cx_dummy = 7 \<rparr>"

definition world_latched :: world where
  "world_latched = finish_cleanup ctx1 ECONNREFUSED False
                     (snd (finish_cas ctx1 async_refused world_connecting))"

text \<open>What another thread does when it wins a swap on inode 12 in between: it closes it.\<close>

definition other_swap :: "world \<Rightarrow> world" where
  "other_swap x = snd (Close_loop 12 [] x)"

text \<open>The same environments, with that other thread in between.\<close>

definition connect_raced :: connect_env where
  "connect_raced = (connect_quiet 0 async_refused) \<lparr> cn_interfere := other_swap \<rparr>"

definition bind_raced :: bind_env where
  "bind_raced = bind_quiet \<lparr> bn_interfere := other_swap \<rparr>"

definition listen_raced :: listen_env where
  "listen_raced = listen_quiet \<lparr> ln_interfere := other_swap \<rparr>"

text \<open>
  Another thread whose failed \<open>bind\<close> latches \<open>EADDRINUSE\<close> (98) on inode 12 in between,
  and a \<open>close\<close> that meets it once.
\<close>

definition other_latch :: "world \<Rightarrow> world" where
  "other_latch x =
     (let (n, x1) = allocState ((newState StatePassive) \<lparr> passive_errno := 98 \<rparr>) x
      in snd (CompareAndSwap 12 (Load 12 x) n x1))"

definition close_raced :: close_env where
  "close_raced = \<lparr> cl_close = None, cl_interfere = [other_latch] \<rparr>"

text \<open>
  A dial that is refused while the accept on the dummy listener fails too; and a dial
  that is refused after another thread has closed the inode.
\<close>

definition async_accept_failed :: async_env where
  "async_accept_failed =
     \<lparr> as_accept = None, as_dial = Inl (Syscall ECONNREFUSED), as_interfere = (\<lambda>x. x) \<rparr>"

definition async_closed :: async_env where
  "async_closed = async_refused \<lparr> as_interfere := other_swap \<rparr>"

text \<open>
  A serving of the sample socket, step by step: the \<open>Listen\<close> of backlog 128 before and
  after its compare-and-swap, a connection accepted on the external listener and pushed,
  taken by the dispatch loop, dialed from 127.0.0.1:40003 and registered, sent; then an
  \<open>Accept\<close> to which \<open>accept4\<close> reports that peer (\<open>accept_ok\<close>), after its \<open>LoadOrStore\<close>,
  after its \<open>Delete\<close>, and after it has received the proxy.
\<close>

definition ticket1 :: listen_ticket where
  "ticket1 = \<lparr> lt_inode = 12, lt_prev = 11, lt_next = 14, lt_lis = 9, lt_backlog = 128,
               lt_ephemeral = (Addr4 2130706433, 40000) \<rparr>"

definition world_begun :: world where
  "world_begun = snd (Listen_begin 13 128 12 11 listen_quiet world1)"

definition world_serving :: world where
  "world_serving = snd (Listen_commit ticket1 world_begun)"

definition conn_in :: TCPConn where
  "conn_in = \<lparr> conn_id = 2, conn_local = (Addr4 3232235777, 8080) \<rparr>"

definition local1 :: AddrPort where
  "local1 = (Addr4 2130706433, 40003)"

definition conn_dialed :: TCPConn where
  "conn_dialed = \<lparr> conn_id = 3, conn_local = local1 \<rparr>"

definition world_pushed :: world where
  "world_pushed = the (AcceptLoop_push 15 conn_in world_serving)"

definition world_taken :: world where
  "world_taken = snd (the (DispatchLoop_take 15 world_pushed))"

definition world_registered :: world where
  "world_registered = snd (Dispatch_dial 14 16 (Some conn_dialed) world_taken)"

definition world_sent :: world where
  "world_sent = the (chan_send 17 16 world_registered)"

definition world_accepting :: world where
  "world_accepting = snd (Accept_begin 13 0 accept_ok world_sent)"

definition world_deleted :: world where
  "world_deleted = backlog_Delete 14 local1 world_accepting"

definition world_accepted :: world where
  "world_accepted = snd (the (Accept_end 13 17 local1 5 accept_ok world_deleted))"


section \<open>Basic facts\<close>

lemma world1_fields:
  "fst (CreateSocket AF_INET SOCK_STREAM kernel_ok world0) = Inr 13"
  "sockets world1 13 = \<lparr> sock_Inode = 12, sock_FD = 10 \<rparr>"
  "inodes world1 12 = \<lparr> Domain = AF_INET, Number = 100, inode_state = 11, inode_socks = {13} \<rparr>"
  "states world1 11 = newState StatePassive"
  "fds world1 10 = \<lparr> fd_num = 3, fd_refs = 0, fd_closing = False \<rparr>"
  "fresh world1 = 14"
  "tasks world1 = []" "closed_fds world1 = []" "closed_conns world1 = []" "closed_lis world1 = []"
  "exhausted world1 = (\<lambda>n. 4294967296 < n)"
  by (simp_all add: world1_def world0_def kernel_ok_def CreateSocket_def NewFD_def allocState_def
      newInode_def NewSocket_def inode_add_def DecRef_def unix_defs Let_def)

lemmas model_defs =
  Connect_def Connect_body_def Connect_passive_def Connect_begin_def Connect_commit_def
  Connect_tempbind_def newTempBindSocket_def bindEphemeral_def finish_cas_def finish_next_def
  finish_cleanup_def Bind_def Bind_body_def Bind_passive_def Bind_begin_def Bind_bound_def
  Bind_commit_def Listen_def Listen_body_def Listen_passive_def Listen_begin_def
  Listen_commit_def Errno_def IncRef_def DecRef_def ClosingIncRef_def NewFD_def allocState_def
  Load_def CompareAndSwap_def newProxy_def tryCloseBind_def closeBind_def unix_Close_def
  captured_def conn_Close_def lis_Close_def spawn_def makeChan_def make_refused_def
  maxAlloc_def hchanSize_def Let_def

lemmas sample_defs =
  connect_quiet_def async_refused_def bind_quiet_def listen_quiet_def accept_ok_def
  close_quiet_def tempbind_ok_def ephemeral_ok_def peer_def newState_def unix_defs
  connect_raced_def bind_raced_def listen_raced_def ctx1_def Is4_def Is6_def errno_defs
  async_accept_failed_def async_closed_def

lemma CompareAndSwap_lost:
  "Load i w \<noteq> old \<Longrightarrow> CompareAndSwap i old new w = (False, w)"
  by (simp add: CompareAndSwap_def Load_def)

lemma CompareAndSwap_closed:
  "state (states w (Load i w)) = StateClosed \<Longrightarrow> state (states w old) \<noteq> StateClosed \<Longrightarrow>
     CompareAndSwap i old new w = (False, w)"
  by (rule CompareAndSwap_lost) auto

lemma IncRef_keeps [simp]:
  "inodes (snd (IncRef r w)) = inodes w" "states (snd (IncRef r w)) = states w"
  "sockets (snd (IncRef r w)) = sockets w" "fresh (snd (IncRef r w)) = fresh w"
  "closed_fds (snd (IncRef r w)) = closed_fds w" "tasks (snd (IncRef r w)) = tasks w"
  "Load i (snd (IncRef r w)) = Load i w"
  by (simp_all add: IncRef_def Load_def)

lemma DecRef_keeps [simp]:
  "inodes (DecRef r w) = inodes w" "states (DecRef r w) = states w"
  "sockets (DecRef r w) = sockets w" "fresh (DecRef r w) = fresh w"
  "closed_fds (DecRef r w) = closed_fds w" "tasks (DecRef r w) = tasks w"
  "Load i (DecRef r w) = Load i w" "chans (DecRef r w) = chans w"
  by (simp_all add: DecRef_def Load_def)

lemma inode_remove_keeps [simp]:
  "Load i (snd (inode_remove j s w)) = Load i w" "states (snd (inode_remove j s w)) = states w"
  "fds (snd (inode_remove j s w)) = fds w" "sockets (snd (inode_remove j s w)) = sockets w"
  "fresh (snd (inode_remove j s w)) = fresh w"
  by (simp_all add: inode_remove_def Load_def)

lemma unix_Close_keeps [simp]:
  "inodes (unix_Close n w) = inodes w" "states (unix_Close n w) = states w"
  "sockets (unix_Close n w) = sockets w" "fresh (unix_Close n w) = fresh w"
  "fds (unix_Close n w) = fds w" "Load i (unix_Close n w) = Load i w"
  by (simp_all add: unix_Close_def Load_def)

lemma ClosingIncRef_keeps [simp]:
  "inodes (snd (ClosingIncRef r w)) = inodes w" "states (snd (ClosingIncRef r w)) = states w"
  "sockets (snd (ClosingIncRef r w)) = sockets w" "fresh (snd (ClosingIncRef r w)) = fresh w"
  "closed_fds (snd (ClosingIncRef r w)) = closed_fds w"
  "Load i (snd (ClosingIncRef r w)) = Load i w"
  by (simp_all add: ClosingIncRef_def Load_def)

lemma world_closed_fields:
  "fst (Close 13 close_quiet world1) = Return 0"
  "sockets world_closed 13 = \<lparr> sock_Inode = 12, sock_FD = 10 \<rparr>"
  "Load 12 world_closed = 14"
  "Domain (inodes world_closed 12) = AF_INET"
  "states world_closed 14 = newState StateClosed"
  "states world_closed 11 = newState StatePassive"
  "fds world_closed 10 = \<lparr> fd_num = 3, fd_refs = 0, fd_closing = True \<rparr>"
  "fresh world_closed = 15"
  by (simp_all add: world_closed_def Close_def Close_body_def close_quiet_def ClosingIncRef_def
      world1_fields unix_Close_def inode_remove_def Let_def Load_def allocState_def
      CompareAndSwap_def Close_release_def newState_def DecRef_def)

subsection \<open>Tickets\<close>

lemma Connect_begin_ticket:
  "Connect_begin s addr i prev e w = (Inr t, w1) \<Longrightarrow> ct_inode t = i \<and> ct_prev t = prev"
  by (auto simp: Connect_begin_def Let_def newProxy_def allocState_def
      split: prod.splits sum.splits option.splits if_splits)

lemma Bind_bound_ticket:
  "Bind_bound i prev pb f domain e w = (Inr t, w1) \<Longrightarrow>
     bt_inode t = i \<and> bt_prev t = prev \<and> bt_fd t = f"
  by (auto simp: Bind_bound_def Let_def allocState_def
      split: prod.splits sum.splits option.splits if_splits goerr.splits)

lemma Bind_begin_ticket:
  "Bind_begin s addr i prev e w = (Inr t, w1) \<Longrightarrow> bt_inode t = i \<and> bt_prev t = prev"
  by (auto simp: Bind_begin_def Let_def dest: Bind_bound_ticket
      split: prod.splits sum.splits option.splits if_splits bool.splits)

lemma Listen_begin_ticket:
  "Listen_begin s backlog i prev e w = (Inr t, w1) \<Longrightarrow>
     lt_inode t = i \<and> lt_prev t = prev \<and> lt_backlog t = (if backlog <s 8 then 8 else backlog)"
  by (auto simp: Listen_begin_def Let_def allocState_def
      split: prod.splits sum.splits option.splits if_splits go.splits goerr.splits)

subsection \<open>The backlog as a 64-bit integer\<close>

lemma backlog_floor:
  fixes b :: "64 word"
  shows "sint (if b <s 8 then 8 else b) = max (sint b) 8"
  by (simp add: word_sless_alt max_def)

lemma backlog_double:
  fixes b :: "64 word"
  assumes "8 \<le> sint b"
  shows "int (unat (b * 2)) = 2 * sint b"
proof -
  have lt: "sint b < 2 ^ 63"
    using sint_lt [of b] by simp
  have "uint b = take_bit 64 (sint b)"
    using uint_sint [of b] by simp
  also have "\<dots> = sint b"
    using assms lt by (intro take_bit_int_eq_self) simp_all
  finally have eq: "uint b = sint b" .
  have "uint (b * 2) = (uint b * 2) mod 2 ^ 64"
    by (simp add: uint_word_ariths)
  also have "\<dots> = uint b * 2"
    using eq assms lt by simp
  finally show ?thesis
    using eq by simp
qed

subsection \<open>The reference on the socket's FD, and the dispatch on the state\<close>

lemma Connect_open:
  "\<not> fd_closing (fds w (sock_FD (sockets w s))) \<Longrightarrow>
     Connect s addr e w =
       (fst (Connect_body s addr e (snd (IncRef (sock_FD (sockets w s)) w))),
        DecRef (sock_FD (sockets w s))
          (snd (Connect_body s addr e (snd (IncRef (sock_FD (sockets w s)) w)))))"
  by (simp add: Connect_def IncRef_def split: prod.splits)

lemma Bind_open:
  "\<not> fd_closing (fds w (sock_FD (sockets w s))) \<Longrightarrow>
     Bind s addr e w =
       (fst (Bind_body s addr e (snd (IncRef (sock_FD (sockets w s)) w))),
        DecRef (sock_FD (sockets w s))
          (snd (Bind_body s addr e (snd (IncRef (sock_FD (sockets w s)) w)))))"
  by (simp add: Bind_def IncRef_def split: prod.splits)

lemma Listen_open:
  "\<not> fd_closing (fds w (sock_FD (sockets w s))) \<Longrightarrow>
     Listen s b e w =
       (fst (Listen_body s b e (snd (IncRef (sock_FD (sockets w s)) w))),
        DecRef (sock_FD (sockets w s))
          (snd (Listen_body s b e (snd (IncRef (sock_FD (sockets w s)) w)))))"
  by (simp add: Listen_def IncRef_def split: prod.splits)

lemma Connect_body_passive:
  "state (states w (Load (sock_Inode (sockets w s)) w)) = StatePassive \<Longrightarrow>
     Connect_body s addr e w
       = Connect_passive s addr (sock_Inode (sockets w s)) (Load (sock_Inode (sockets w s)) w) e w"
  by (simp add: Connect_body_def Let_def)

lemma Bind_body_passive:
  "state (states w (Load (sock_Inode (sockets w s)) w)) = StatePassive \<Longrightarrow>
     Bind_body s addr e w
       = Bind_passive s addr (sock_Inode (sockets w s)) (Load (sock_Inode (sockets w s)) w) e w"
  by (simp add: Bind_body_def Let_def)

lemma Listen_body_passive:
  "state (states w (Load (sock_Inode (sockets w s)) w)) = StatePassive \<Longrightarrow>
     Listen_body s b e w
       = Listen_passive s b (sock_Inode (sockets w s)) (Load (sock_Inode (sockets w s)) w) e w"
  by (simp add: Listen_body_def Let_def)

lemma Connect_passive_ticket:
  "Connect_begin s addr i prev e w = (Inr t, w1) \<Longrightarrow>
     Connect_passive s addr i prev e w = Connect_commit t e (cn_interfere e w1)"
  by (simp add: Connect_passive_def)

lemma Bind_passive_ticket:
  "Bind_begin s addr i prev e w = (Inr t, w1) \<Longrightarrow>
     fst (Bind_passive s addr i prev e w) = fst (Bind_commit t (bn_interfere e w1))"
  by (simp add: Bind_passive_def split: prod.splits)

lemma Listen_passive_ticket:
  "Listen_begin s b i prev e w = (Inr t, w1) \<Longrightarrow>
     Listen_passive s b i prev e w = Listen_commit t (ln_interfere e w1)"
  by (simp add: Listen_passive_def)

subsection \<open>Lost swaps\<close>

lemma Connect_commit_lost:
  "Load (ct_inode t) w \<noteq> ct_prev t \<Longrightarrow> fst (fst (Connect_commit t e w)) = Return ERESTART"
  by (simp add: Connect_commit_def CompareAndSwap_lost)

lemma Bind_commit_lost:
  "Load (bt_inode t) w \<noteq> bt_prev t \<Longrightarrow> fst (Bind_commit t w) = Return ERESTART"
  by (simp add: Bind_commit_def CompareAndSwap_lost)

lemma Listen_commit_lost:
  "Load (lt_inode t) w \<noteq> lt_prev t \<Longrightarrow> fst (Listen_commit t w) = Return ERESTART"
  by (simp add: Listen_commit_def CompareAndSwap_lost)

lemma IncRef_open:
  "\<not> fd_closing (fds w r) \<Longrightarrow> IncRef r w = (True, snd (IncRef r w))"
  by (simp add: IncRef_def)

lemma IncRef_DecRef:
  "\<not> fd_closing (fds w r) \<Longrightarrow> DecRef r (snd (IncRef r w)) = w"
  by (simp add: IncRef_def DecRef_def)

lemma other_swap_swaps:
  "state (states x (Load 12 x)) \<noteq> StateClosed \<Longrightarrow> Load 12 (other_swap x) = fresh x"
  by (simp add: other_swap_def Let_def allocState_def CompareAndSwap_def Load_def)

subsection \<open>The sample connect\<close>

lemma world_connecting_fields:
  "fst (Connect 13 peer (connect_quiet O_NONBLOCK async_refused) world1) = (Return 0, Completion ctx1)"
  "sockets world_connecting 13 = \<lparr> sock_Inode = 12, sock_FD = 10 \<rparr>"
  "Load 12 world_connecting = 16"
  "state (states world_connecting 16) = StateConnecting"
  "connecting_bind (states world_connecting 16) = Some 15"
  "fds world_connecting 10 = \<lparr> fd_num = 3, fd_refs = 0, fd_closing = False \<rparr>"
  "fds world_connecting 15 = \<lparr> fd_num = 4, fd_refs = 0, fd_closing = False \<rparr>"
  "fresh world_connecting = 17"
  "closed_fds world_connecting = []"
  by (simp_all add: world_connecting_def model_defs sample_defs world1_fields)

lemma world_latched_fields:
  "finish_cas ctx1 async_refused world_connecting
     = ((ECONNREFUSED, False), snd (finish_cas ctx1 async_refused world_connecting))"
  "sockets world_latched 13 = \<lparr> sock_Inode = 12, sock_FD = 10 \<rparr>"
  "Load 12 world_latched = 17"
  "state (states world_latched 17) = StatePassive"
  "passive_errno (states world_latched 17) = ECONNREFUSED"
  "passive_bind (states world_latched 17) = Some 15"
  "fds world_latched 10 = \<lparr> fd_num = 3, fd_refs = 0, fd_closing = False \<rparr>"
  "fds world_latched 15 = \<lparr> fd_num = 4, fd_refs = 0, fd_closing = False \<rparr>"
  "closed_fds world_latched = []"
  by (simp_all add: world_latched_def prod_eq_iff finish_cas_def finish_next_def finish_cleanup_def
      allocState_def CompareAndSwap_def lis_Close_def conn_Close_def Let_def Load_def
      sample_defs world_connecting_fields [unfolded Load_def])

subsection \<open>On a closed inode\<close>

lemma Connect_closed:
  assumes "state (states w (Load (sock_Inode (sockets w s)) w)) = StateClosed"
  shows "fst (fst (Connect s addr e w)) = Return EBADF"
    and "inodes (snd (Connect s addr e w)) = inodes w"
    and "states (snd (Connect s addr e w)) = states w"
  using assms
  by (auto simp: Connect_def Connect_body_def Let_def IncRef_def DecRef_def Load_def split: prod.splits)

lemma Bind_closed:
  assumes "state (states w (Load (sock_Inode (sockets w s)) w)) = StateClosed"
  shows "fst (Bind s addr e w) = Return EBADF"
    and "inodes (snd (Bind s addr e w)) = inodes w"
    and "states (snd (Bind s addr e w)) = states w"
  using assms
  by (auto simp: Bind_def Bind_body_def Let_def IncRef_def DecRef_def Load_def split: prod.splits)

lemma Listen_closed:
  assumes "state (states w (Load (sock_Inode (sockets w s)) w)) = StateClosed"
  shows "fst (Listen s b e w) = Return EBADF"
    and "inodes (snd (Listen s b e w)) = inodes w"
    and "states (snd (Listen s b e w)) = states w"
  using assms
  by (auto simp: Listen_def Listen_body_def Let_def IncRef_def DecRef_def Load_def split: prod.splits)

lemma Accept_closed:
  assumes "state (states w (Load (sock_Inode (sockets w s)) w)) = StateClosed"
  shows "fst (Accept_begin s fl e w) = NoChild (Return EBADF)"
    and "inodes (snd (Accept_begin s fl e w)) = inodes w"
    and "states (snd (Accept_begin s fl e w)) = states w"
  using assms
  by (auto simp: Accept_begin_def Let_def IncRef_def DecRef_def Load_def split: prod.splits)

lemma Connect_commit_closed:
  assumes "state (states w (Load (ct_inode t) w)) = StateClosed"
    and "state (states w (ct_prev t)) \<noteq> StateClosed"
  shows "fst (fst (Connect_commit t e w)) = Return ERESTART"
    and "inodes (snd (Connect_commit t e w)) = inodes w"
    and "states (snd (Connect_commit t e w)) = states w"
  using assms
  by (auto simp: Connect_commit_def CompareAndSwap_closed tryCloseBind_def closeBind_def
      ClosingIncRef_def DecRef_def unix_Close_def Load_def)

lemma Bind_commit_closed:
  assumes "state (states w (Load (bt_inode t) w)) = StateClosed"
    and "state (states w (bt_prev t)) \<noteq> StateClosed"
  shows "fst (Bind_commit t w) = Return ERESTART"
    and "inodes (snd (Bind_commit t w)) = inodes w"
    and "states (snd (Bind_commit t w)) = states w"
  using assms
  by (auto simp: Bind_commit_def CompareAndSwap_closed unix_Close_def Load_def)

lemma Listen_commit_closed:
  assumes "state (states w (Load (lt_inode t) w)) = StateClosed"
    and "state (states w (lt_prev t)) \<noteq> StateClosed"
  shows "fst (Listen_commit t w) = Return ERESTART"
    and "inodes (snd (Listen_commit t w)) = inodes w"
    and "states (snd (Listen_commit t w)) = states w"
  using assms
  by (auto simp: Listen_commit_def CompareAndSwap_closed lis_Close_def Load_def)

lemma Close_loop_closed:
  "state (states w (Load i w)) = StateClosed \<Longrightarrow> Close_loop i hs w = (None, w)"
  by (cases hs) (simp_all add: Let_def)

lemma finish_cas_closed:
  assumes "state (states w (Load (cx_inode c) w)) = StateClosed"
    and "state (states w (cx_mid c)) \<noteq> StateClosed"
    and "Load (cx_inode c) w < fresh w"
  shows "inodes (snd (finish_cas c a w)) = inodes w"
    and "state (states (snd (finish_cas c a w)) (Load (cx_inode c) w)) = StateClosed"
  using assms
  by (auto simp: finish_cas_def finish_next_def Let_def lis_Close_def allocState_def spawn_def
      CompareAndSwap_def Load_def split: prod.splits option.splits sum.splits goerr.splits)

lemma Close_body_closed:
  assumes "state (states w (Load (sock_Inode (sockets w s)) w)) = StateClosed"
  shows "Load (sock_Inode (sockets w s)) (snd (Close_body s e w)) = Load (sock_Inode (sockets w s)) w
       \<and> states (snd (Close_body s e w)) = states w"
proof -
  let ?i = "sock_Inode (sockets w s)"
  let ?w1 = "unix_Close (fd_num (fds w (sock_FD (sockets w s)))) w"
  obtain last w2 where rm: "inode_remove ?i s ?w1 = (last, w2)"
    by (cases "inode_remove ?i s ?w1")
  have w2: "Load ?i w2 = Load ?i w" "states w2 = states w"
    using inode_remove_keeps(1) [of ?i ?i s ?w1] inode_remove_keeps(2) [of ?i s ?w1] rm by simp_all
  then have "state (states w2 (Load ?i w2)) = StateClosed"
    using assms by simp
  then have loop: "Close_loop ?i (cl_interfere e) w2 = (None, w2)"
    by (rule Close_loop_closed)
  show ?thesis
  proof (cases "cl_close e")
    case None
    then show ?thesis
      using loop rm w2 by (cases last) (simp_all add: Close_body_def Let_def)
  next
    case (Some err)
    then show ?thesis
      by (cases err) (simp_all add: Close_body_def Let_def)
  qed
qed

lemma Close_closed:
  assumes "state (states w (Load (sock_Inode (sockets w s)) w)) = StateClosed"
  shows "Load (sock_Inode (sockets w s)) (snd (Close s e w)) = Load (sock_Inode (sockets w s)) w"
    and "states (snd (Close s e w)) = states w"
proof -
  obtain ok w1 where ci: "ClosingIncRef (sock_FD (sockets w s)) w = (ok, w1)"
    by (cases "ClosingIncRef (sock_FD (sockets w s)) w")
  have w1: "Load (sock_Inode (sockets w s)) w1 = Load (sock_Inode (sockets w s)) w"
    "states w1 = states w" "sockets w1 = sockets w"
    using ClosingIncRef_keeps(6) [of "sock_Inode (sockets w s)" "sock_FD (sockets w s)" w]
      ClosingIncRef_keeps(2,3) [of "sock_FD (sockets w s)" w] ci by simp_all
  then have "state (states w1 (Load (sock_Inode (sockets w1 s)) w1)) = StateClosed"
    using assms by simp
  from Close_body_closed [OF this, of e] w1 ci
  show "Load (sock_Inode (sockets w s)) (snd (Close s e w)) = Load (sock_Inode (sockets w s)) w"
    and "states (snd (Close s e w)) = states w"
    by (cases ok; cases "Close_body s e w1"; simp add: Close_def)+
qed

section \<open>The closed state\<close>

text \<open>
  C2. \<open>Closed\<close> is terminal. Let the state slot of inode \<open>i\<close> point to a \<open>Closed\<close> state.
  Then \<open>Connect\<close>, \<open>Bind\<close>, \<open>Listen\<close> and \<open>Accept\<close> on a socket of that inode return
  \<open>EBADF\<close> and leave every inode (so the slot) and every state object as they were. And
  no compare-and-swap of the package replaces the slot: the swap of a \<open>Connect\<close>, a
  \<open>Bind\<close> or a \<open>Listen\<close> that had loaded a state that is not \<open>Closed\<close>, and the swap of a
  completion goroutine whose \<open>mid\<close> is not \<open>Closed\<close>, are lost and the slot keeps pointing
  to the \<open>Closed\<close> state; the loop of \<open>Close\<close> stops at its check without swapping, and
  \<open>Close\<close> as a whole leaves the slot alone.
\<close>

theorem Closed_is_terminal:
  assumes "state (states w (Load i w)) = StateClosed"
  shows "(sock_Inode (sockets w s) = i \<longrightarrow>
            fst (fst (Connect s addr ce w)) = Return EBADF
          \<and> inodes (snd (Connect s addr ce w)) = inodes w
          \<and> states (snd (Connect s addr ce w)) = states w
          \<and> fst (Bind s addr be w) = Return EBADF
          \<and> inodes (snd (Bind s addr be w)) = inodes w
          \<and> states (snd (Bind s addr be w)) = states w
          \<and> fst (Listen s backlog le w) = Return EBADF
          \<and> inodes (snd (Listen s backlog le w)) = inodes w
          \<and> states (snd (Listen s backlog le w)) = states w
          \<and> fst (Accept_begin s flags ae w) = NoChild (Return EBADF)
          \<and> inodes (snd (Accept_begin s flags ae w)) = inodes w
          \<and> states (snd (Accept_begin s flags ae w)) = states w
          \<and> Load i (snd (Close s cle w)) = Load i w
          \<and> states (snd (Close s cle w)) = states w)
       \<and> (ct_inode ct = i \<and> state (states w (ct_prev ct)) \<noteq> StateClosed \<longrightarrow>
            inodes (snd (Connect_commit ct ce w)) = inodes w
          \<and> states (snd (Connect_commit ct ce w)) = states w)
       \<and> (bt_inode bt = i \<and> state (states w (bt_prev bt)) \<noteq> StateClosed \<longrightarrow>
            inodes (snd (Bind_commit bt w)) = inodes w
          \<and> states (snd (Bind_commit bt w)) = states w)
       \<and> (lt_inode lt = i \<and> state (states w (lt_prev lt)) \<noteq> StateClosed \<longrightarrow>
            inodes (snd (Listen_commit lt w)) = inodes w
          \<and> states (snd (Listen_commit lt w)) = states w)
       \<and> (cx_inode cx = i \<and> state (states w (cx_mid cx)) \<noteq> StateClosed \<and> Load i w < fresh w \<longrightarrow>
            inodes (snd (finish_cas cx a w)) = inodes w
          \<and> state (states (snd (finish_cas cx a w)) (Load i w)) = StateClosed)
       \<and> Close_loop i hs w = (None, w)"
proof -
  have ops: "sock_Inode (sockets w s) = i \<longrightarrow>
            fst (fst (Connect s addr ce w)) = Return EBADF
          \<and> inodes (snd (Connect s addr ce w)) = inodes w
          \<and> states (snd (Connect s addr ce w)) = states w
          \<and> fst (Bind s addr be w) = Return EBADF
          \<and> inodes (snd (Bind s addr be w)) = inodes w
          \<and> states (snd (Bind s addr be w)) = states w
          \<and> fst (Listen s backlog le w) = Return EBADF
          \<and> inodes (snd (Listen s backlog le w)) = inodes w
          \<and> states (snd (Listen s backlog le w)) = states w
          \<and> fst (Accept_begin s flags ae w) = NoChild (Return EBADF)
          \<and> inodes (snd (Accept_begin s flags ae w)) = inodes w
          \<and> states (snd (Accept_begin s flags ae w)) = states w
          \<and> Load i (snd (Close s cle w)) = Load i w
          \<and> states (snd (Close s cle w)) = states w"
    using assms
    by (auto simp: Connect_closed Bind_closed Listen_closed Accept_closed Close_closed)
  have connect: "ct_inode ct = i \<and> state (states w (ct_prev ct)) \<noteq> StateClosed \<longrightarrow>
            inodes (snd (Connect_commit ct ce w)) = inodes w
          \<and> states (snd (Connect_commit ct ce w)) = states w"
    using assms by (auto simp: Connect_commit_closed)
  have bind: "bt_inode bt = i \<and> state (states w (bt_prev bt)) \<noteq> StateClosed \<longrightarrow>
            inodes (snd (Bind_commit bt w)) = inodes w
          \<and> states (snd (Bind_commit bt w)) = states w"
    using assms by (auto simp: Bind_commit_closed)
  have listen: "lt_inode lt = i \<and> state (states w (lt_prev lt)) \<noteq> StateClosed \<longrightarrow>
            inodes (snd (Listen_commit lt w)) = inodes w
          \<and> states (snd (Listen_commit lt w)) = states w"
    using assms by (auto simp: Listen_commit_closed)
  have finish: "cx_inode cx = i \<and> state (states w (cx_mid cx)) \<noteq> StateClosed \<and> Load i w < fresh w \<longrightarrow>
            inodes (snd (finish_cas cx a w)) = inodes w
          \<and> state (states (snd (finish_cas cx a w)) (Load i w)) = StateClosed"
    using assms by (auto simp: finish_cas_closed)
  have loop: "Close_loop i hs w = (None, w)"
    using assms by (rule Close_loop_closed)
  from ops connect bind listen finish loop show ?thesis by blast
qed

theorem Closed_is_terminal_witness:
  "state (states world_closed (Load 12 world_closed)) = StateClosed
   \<and> fst (fst (Connect 13 peer (connect_quiet 0 async_refused) world_closed)) = Return EBADF
   \<and> inodes (snd (Connect 13 peer (connect_quiet 0 async_refused) world_closed)) = inodes world_closed
   \<and> fst (Bind 13 peer bind_quiet world_closed) = Return EBADF
   \<and> fst (Listen 13 128 listen_quiet world_closed) = Return EBADF
   \<and> fst (Accept_begin 13 0 accept_ok world_closed) = NoChild (Return EBADF)
   \<and> Load 12 (snd (Close 13 close_quiet world_closed)) = 14
   \<and> inodes (snd (Connect_commit
        \<lparr> ct_inode = 12, ct_prev = 11, ct_mid = 15, ct_bind = 16, ct_owned = True,
          ct_local = zeroAddrPort, ct_proxy = 17, ct_blocking = True \<rparr>
        (connect_quiet 0 async_refused) world_closed)) = inodes world_closed
   \<and> inodes (snd (Bind_commit
        \<lparr> bt_inode = 12, bt_prev = 11, bt_next = 15, bt_fd = 16, bt_owned = True, bt_errno = 0 \<rparr>
        world_closed)) = inodes world_closed
   \<and> inodes (snd (Listen_commit
        \<lparr> lt_inode = 12, lt_prev = 11, lt_next = 15, lt_lis = 9, lt_backlog = 128,
          lt_ephemeral = zeroAddrPort \<rparr> world_closed)) = inodes world_closed
   \<and> inodes (snd (finish_cas
        \<lparr> cx_inode = 12, cx_mid = 11, cx_bind = 16, cx_local = zeroAddrPort, cx_proxy = 17,
          cx_dummy = 7 \<rparr> async_refused world_closed)) = inodes world_closed
   \<and> Close_loop 12 [] world_closed = (None, world_closed)"
  using Closed_is_terminal [where w = world_closed and i = 12 and s = 13 and addr = peer
      and ce = "connect_quiet 0 async_refused" and be = bind_quiet and backlog = 128
      and le = listen_quiet and flags = 0 and ae = accept_ok and cle = close_quiet
      and ct = "\<lparr> ct_inode = 12, ct_prev = 11, ct_mid = 15, ct_bind = 16, ct_owned = True,
          ct_local = zeroAddrPort, ct_proxy = 17, ct_blocking = True \<rparr>"
      and bt = "\<lparr> bt_inode = 12, bt_prev = 11, bt_next = 15, bt_fd = 16, bt_owned = True,
          bt_errno = 0 \<rparr>"
      and lt = "\<lparr> lt_inode = 12, lt_prev = 11, lt_next = 15, lt_lis = 9, lt_backlog = 128,
          lt_ephemeral = zeroAddrPort \<rparr>"
      and cx = "\<lparr> cx_inode = 12, cx_mid = 11, cx_bind = 16, cx_local = zeroAddrPort,
          cx_proxy = 17, cx_dummy = 7 \<rparr>"
      and a = async_refused and hs = "[]"]
  by (simp add: world_closed_fields newState_def)

section \<open>The buffer of a listening socket\<close>

lemma Listen_begin_not_0:
  assumes "Listen_begin s backlog i prev e w = (Inl r, w1)"
    and "ln_listen e \<noteq> Inl (Syscall 0)"
  shows "r \<noteq> Return 0"
  using assms
  by (auto simp: Listen_begin_def Let_def allocState_def
      split: prod.splits sum.splits option.splits if_splits go.splits goerr.splits)

lemma Listen_commit_started:
  assumes "Listen_commit t w = (Return 0, w')"
  shows "w' = spawn (DispatchLoop (fresh w) (lt_ephemeral t) (lt_next t))
                (spawn (AcceptLoop (lt_lis t) (lt_next t) (fresh w))
                   (snd (makeChan (unat (lt_backlog t * 2))
                      (snd (CompareAndSwap (lt_inode t) (lt_prev t) (lt_next t) w)))))"
    and "Load (lt_inode t) w' = lt_next t"
    and "\<not> make_refused (snd (CompareAndSwap (lt_inode t) (lt_prev t) (lt_next t) w))
           (lt_backlog t * 2)"
  using assms
  by (auto simp: Listen_commit_def Let_def makeChan_def CompareAndSwap_def ERESTART_def
      spawn_def Load_def split: prod.splits if_splits)

lemma Listen_commit_buffer:
  assumes "Listen_begin s backlog i prev e w = (Inr t, w1)"
    and "Listen_commit t w2 = (Return 0, w3)"
  shows "tasks w3 = DispatchLoop (fresh w2) (lt_ephemeral t) (Load i w3)
                    # AcceptLoop (lt_lis t) (Load i w3) (fresh w2) # tasks w2"
    and "int (chan_cap (chans w3 (fresh w2))) = 2 * max (sint backlog) 8"
proof -
  have t: "lt_inode t = i" "lt_backlog t = (if backlog <s 8 then 8 else backlog)"
    using assms(1) by (simp_all add: Listen_begin_ticket)
  then have s: "sint (lt_backlog t) = max (sint backlog) 8"
    by (simp only: backlog_floor)
  then have "8 \<le> sint (lt_backlog t)"
    by simp
  then have d: "int (unat (lt_backlog t * 2)) = 2 * max (sint backlog) 8"
    using backlog_double [of "lt_backlog t"] s by simp
  note w3 = Listen_commit_started(1) [OF assms(2)]
  have l: "Load i w3 = lt_next t"
    using Listen_commit_started(2) [OF assms(2)] t(1) by simp
  show "tasks w3 = DispatchLoop (fresh w2) (lt_ephemeral t) (Load i w3)
                    # AcceptLoop (lt_lis t) (Load i w3) (fresh w2) # tasks w2"
    unfolding l by (simp add: w3 spawn_def makeChan_def CompareAndSwap_def)
  show "int (chan_cap (chans w3 (fresh w2))) = 2 * max (sint backlog) 8"
    using d by (simp add: w3 spawn_def makeChan_def CompareAndSwap_def)
qed

text \<open>
  C6, as the code has it. A \<open>Listen\<close> that returns 0 either found the inode listening
  already (lines 508 and 509): then it makes no channel and starts no loop, whatever
  backlog it was given. Or it found the inode passive, won its compare-and-swap and made
  its buffer: then it has started the accept loop and the dispatch loop of the state it
  installed on one new channel, and the capacity of that channel is twice the backlog
  after it was raised to at least 8 (line 516): \<open>2 * max backlog 8\<close>. It is
  \<open>2 * backlog\<close> only for a backlog of 8 or more. (That no error of \<open>net.Listen\<close> carries
  the errno 0 is a fact of Go's \<open>net\<close>.)
\<close>

theorem Listen_buffer_capacity:
  assumes "Listen s backlog e w = (Return 0, w')"
    and "ln_listen e \<noteq> Inl (Syscall 0)"
  shows "state (states w (Load (sock_Inode (sockets w s)) w)) = StateListening
           \<and> tasks w' = tasks w \<and> chans w' = chans w
       \<or> state (states w (Load (sock_Inode (sockets w s)) w)) = StatePassive
           \<and> (\<exists>buffer lis ephemeral rest.
                 tasks w' = DispatchLoop buffer ephemeral (Load (sock_Inode (sockets w s)) w')
                            # AcceptLoop lis (Load (sock_Inode (sockets w s)) w') buffer # rest
               \<and> int (chan_cap (chans w' buffer)) = 2 * max (sint backlog) 8)"
proof -
  let ?f = "sock_FD (sockets w s)" and ?i = "sock_Inode (sockets w s)"
  let ?w1 = "snd (IncRef ?f w)"
  have inc: "fst (IncRef ?f w)"
    using assms(1) by (cases "fst (IncRef ?f w)") (simp_all add: Listen_def case_prod_beta EBADF_def)
  have body: "Listen_body s backlog e ?w1 = (Return 0, snd (Listen_body s backlog e ?w1))"
    and w': "w' = DecRef ?f (snd (Listen_body s backlog e ?w1))"
    using assms(1) inc by (simp_all add: Listen_def case_prod_beta prod_eq_iff)
  have chans: "chans ?w1 = chans w"
    by (simp add: IncRef_def)
  let ?prev = "Load ?i w"
  show ?thesis
  proof (cases "state (states w ?prev)")
    case StatePassive
    then have pas: "Listen_passive s backlog ?i ?prev e ?w1
        = (Return 0, snd (Listen_body s backlog e ?w1))"
      using body by (simp add: Listen_body_def Let_def)
    obtain x wb where bg: "Listen_begin s backlog ?i ?prev e ?w1 = (x, wb)"
      by (cases "Listen_begin s backlog ?i ?prev e ?w1")
    show ?thesis
    proof (cases x)
      case (Inl r)
      then have "r = Return 0"
        using pas bg by (simp add: Listen_passive_def)
      then show ?thesis
        using Listen_begin_not_0 [OF bg [unfolded Inl] assms(2)] by simp
    next
      case (Inr t)
      then have commit: "Listen_commit t (ln_interfere e wb)
          = (Return 0, snd (Listen_body s backlog e ?w1))"
        using pas bg by (simp add: Listen_passive_def)
      note buf = Listen_commit_buffer [OF bg [unfolded Inr] commit]
      have "tasks w' = DispatchLoop (fresh (ln_interfere e wb)) (lt_ephemeral t) (Load ?i w')
                       # AcceptLoop (lt_lis t) (Load ?i w') (fresh (ln_interfere e wb))
                       # tasks (ln_interfere e wb)"
        and "int (chan_cap (chans w' (fresh (ln_interfere e wb)))) = 2 * max (sint backlog) 8"
        using buf by (simp_all add: w')
      then show ?thesis
        using StatePassive by blast
    qed
  next
    case StateListening
    then have "snd (Listen_body s backlog e ?w1) = ?w1"
      by (simp add: Listen_body_def Let_def)
    then show ?thesis
      using StateListening chans by (simp add: w')
  next
    case StateConnecting
    then show ?thesis
      using body by (simp add: Listen_body_def Let_def EINVAL_def)
  next
    case StateConnected
    then show ?thesis
      using body by (simp add: Listen_body_def Let_def EINVAL_def)
  next
    case StateClosed
    then show ?thesis
      using body by (simp add: Listen_body_def Let_def EBADF_def)
  qed
qed

text \<open>
  \<open>listen(fd, 128)\<close> on the passive socket 13: the state at 14, the buffer at 15 with
  256 places; and a second \<open>listen(fd, 1)\<close> on the same socket, which finds the inode
  listening and leaves that buffer as it is.
\<close>

lemma world_listening_fields:
  "fst (Listen 13 128 listen_quiet world1) = Return 0"
  "sockets (snd (Listen 13 128 listen_quiet world1)) 13 = \<lparr> sock_Inode = 12, sock_FD = 10 \<rparr>"
  "fd_closing (fds (snd (Listen 13 128 listen_quiet world1)) 10) = False"
  "inode_state (inodes (snd (Listen 13 128 listen_quiet world1)) 12) = 14"
  "state (states (snd (Listen 13 128 listen_quiet world1)) 14) = StateListening"
  "tasks (snd (Listen 13 128 listen_quiet world1))
     = [DispatchLoop 15 (Addr4 2130706433, 40000) 14, AcceptLoop 9 14 15]"
  "chan_cap (chans (snd (Listen 13 128 listen_quiet world1)) 15) = 256"
  by (simp_all add: Listen_def Listen_body_def Listen_passive_def Listen_begin_def
      Listen_commit_def make_refused_def maxAlloc_def hchanSize_def
      listen_quiet_def ephemeral_ok_def bindEphemeral_def IncRef_def DecRef_def world1_fields
      Load_def newState_def unix_defs Let_def allocState_def CompareAndSwap_def makeChan_def
      spawn_def word_sless_alt)

theorem Listen_buffer_capacity_witness:
  "Listen 13 128 listen_quiet world1 = (Return 0, snd (Listen 13 128 listen_quiet world1))
   \<and> ln_listen listen_quiet \<noteq> Inl (Syscall 0)
   \<and> state (states world1 (Load (sock_Inode (sockets world1 13)) world1)) = StatePassive
   \<and> (\<exists>buffer lis ephemeral rest.
         tasks (snd (Listen 13 128 listen_quiet world1))
           = DispatchLoop buffer ephemeral
               (Load (sock_Inode (sockets world1 13)) (snd (Listen 13 128 listen_quiet world1)))
             # AcceptLoop lis
               (Load (sock_Inode (sockets world1 13)) (snd (Listen 13 128 listen_quiet world1)))
               buffer
             # rest
         \<and> int (chan_cap (chans (snd (Listen 13 128 listen_quiet world1)) buffer))
             = 2 * max (sint (128 :: 64 word)) 8)"
proof -
  have l: "Listen 13 128 listen_quiet world1 = (Return 0, snd (Listen 13 128 listen_quiet world1))"
    using world_listening_fields(1) by (simp add: prod_eq_iff)
  have e: "ln_listen listen_quiet \<noteq> Inl (Syscall 0)"
    by (simp add: listen_quiet_def)
  have p: "state (states world1 (Load (sock_Inode (sockets world1 13)) world1)) = StatePassive"
    by (simp add: world1_fields Load_def newState_def)
  from Listen_buffer_capacity [OF l e] p l e show ?thesis
    by simp
qed

text \<open>
  The claim as it was stated, twice the value the target passed, fails for a backlog
  below 8: \<open>listen(fd, 1)\<close> makes a buffer of capacity 16.
\<close>

theorem Listen_backlog_1_counterexample:
  "fst (Listen 13 1 listen_quiet world1) = Return 0
   \<and> tasks (snd (Listen 13 1 listen_quiet world1))
       = [DispatchLoop 15 (Addr4 2130706433, 40000) 14, AcceptLoop 9 14 15]
   \<and> chan_cap (chans (snd (Listen 13 1 listen_quiet world1)) 15) = 16
   \<and> unat (1 :: 64 word) * 2 = 2"
  by (simp add: Listen_def Listen_body_def Listen_passive_def Listen_begin_def Listen_commit_def
      make_refused_def maxAlloc_def hchanSize_def
      listen_quiet_def ephemeral_ok_def bindEphemeral_def IncRef_def DecRef_def world1_fields
      Load_def newState_def unix_defs Let_def allocState_def CompareAndSwap_def makeChan_def
      spawn_def word_sless_alt)

text \<open>
  And a backlog of \<open>2 ^ 45\<close> is out of range for \<open>make\<close>: the \<open>Listen\<close> panics, after it
  has installed the listening state.
\<close>

lemma Listen_out_of_range:
  "fst (Listen 13 35184372088832 listen_quiet world1) = Panic
   \<and> state (states (snd (Listen 13 35184372088832 listen_quiet world1))
        (Load 12 (snd (Listen 13 35184372088832 listen_quiet world1)))) = StateListening"
  by (simp add: Listen_def Listen_body_def Listen_passive_def Listen_begin_def Listen_commit_def
      make_refused_def maxAlloc_def hchanSize_def
      listen_quiet_def ephemeral_ok_def bindEphemeral_def IncRef_def DecRef_def world1_fields
      Load_def newState_def unix_defs Let_def allocState_def CompareAndSwap_def makeChan_def
      spawn_def word_sless_alt)

text \<open>
  Nor is every \<open>Listen\<close> that returns 0 one that makes a buffer: \<open>listen(fd, 1)\<close> after
  \<open>listen(fd, 128)\<close> returns 0, starts nothing, and the buffer keeps its 256 places.
\<close>

lemma Listen_again:
  "fst (Listen 13 1 listen_quiet (snd (Listen 13 128 listen_quiet world1))) = Return 0
   \<and> tasks (snd (Listen 13 1 listen_quiet (snd (Listen 13 128 listen_quiet world1))))
       = [DispatchLoop 15 (Addr4 2130706433, 40000) 14, AcceptLoop 9 14 15]
   \<and> chan_cap (chans (snd (Listen 13 1 listen_quiet (snd (Listen 13 128 listen_quiet world1)))) 15)
       = 256"
  by (simp add: Listen_def [of 13 1] Listen_body_def [of 13 1] IncRef_def DecRef_def
      world_listening_fields Load_def Let_def)

section \<open>Lost swaps\<close>

text \<open>
  C5. Take a \<open>Connect\<close>, a \<open>Bind\<close> or a \<open>Listen\<close> on a socket whose FD is open and
  whose inode is passive, that comes to its compare-and-swap (it holds a ticket). If by
  then the other threads have put another pointer in the state slot than the one the call
  had loaded, the call returns \<open>ERESTART\<close>.
\<close>

theorem lost_swap_returns_ERESTART:
  assumes "\<not> fd_closing (fds w (sock_FD (sockets w s)))"
    and "i = sock_Inode (sockets w s)"
    and "state (states w (Load i w)) = StatePassive"
    and "w0 = snd (IncRef (sock_FD (sockets w s)) w)"
  shows "(Connect_begin s addr i (Load i w) ce w0 = (Inr ct, w1)
            \<and> Load i (cn_interfere ce w1) \<noteq> Load i w
          \<longrightarrow> fst (fst (Connect s addr ce w)) = Return ERESTART)
       \<and> (Bind_begin s addr i (Load i w) be w0 = (Inr bt, w2)
            \<and> Load i (bn_interfere be w2) \<noteq> Load i w
          \<longrightarrow> fst (Bind s addr be w) = Return ERESTART)
       \<and> (Listen_begin s backlog i (Load i w) le w0 = (Inr lt, w3)
            \<and> Load i (ln_interfere le w3) \<noteq> Load i w
          \<longrightarrow> fst (Listen s backlog le w) = Return ERESTART)"
proof -
  have w0: "sock_Inode (sockets w0 s) = i" "Load i w0 = Load i w"
    "state (states w0 (Load (sock_Inode (sockets w0 s)) w0)) = StatePassive"
    using assms by simp_all
  have connect: "fst (fst (Connect s addr ce w)) = Return ERESTART"
    if b: "Connect_begin s addr i (Load i w) ce w0 = (Inr ct, w1)"
      and l: "Load i (cn_interfere ce w1) \<noteq> Load i w"
  proof -
    have "fst (fst (Connect_commit ct ce (cn_interfere ce w1))) = Return ERESTART"
      using Connect_begin_ticket [OF b] l by (intro Connect_commit_lost) simp
    moreover have "Connect_body s addr ce w0 = Connect_commit ct ce (cn_interfere ce w1)"
      using Connect_body_passive [OF w0(3)] Connect_passive_ticket [OF b] w0(1,2) by simp
    ultimately show ?thesis
      using Connect_open [OF assms(1), of addr ce] assms(4) by simp
  qed
  have bind: "fst (Bind s addr be w) = Return ERESTART"
    if b: "Bind_begin s addr i (Load i w) be w0 = (Inr bt, w2)"
      and l: "Load i (bn_interfere be w2) \<noteq> Load i w"
  proof -
    have "fst (Bind_commit bt (bn_interfere be w2)) = Return ERESTART"
      using Bind_begin_ticket [OF b] l by (intro Bind_commit_lost) simp
    moreover have "fst (Bind_body s addr be w0) = fst (Bind_commit bt (bn_interfere be w2))"
      using Bind_body_passive [OF w0(3)] Bind_passive_ticket [OF b] w0(1,2) by simp
    ultimately show ?thesis
      using Bind_open [OF assms(1), of addr be] assms(4) by simp
  qed
  have listen: "fst (Listen s backlog le w) = Return ERESTART"
    if b: "Listen_begin s backlog i (Load i w) le w0 = (Inr lt, w3)"
      and l: "Load i (ln_interfere le w3) \<noteq> Load i w"
  proof -
    have "fst (Listen_commit lt (ln_interfere le w3)) = Return ERESTART"
      using Listen_begin_ticket [OF b] l by (intro Listen_commit_lost) simp
    moreover have "Listen_body s backlog le w0 = Listen_commit lt (ln_interfere le w3)"
      using Listen_body_passive [OF w0(3)] Listen_passive_ticket [OF b] w0(1,2) by simp
    ultimately show ?thesis
      using Listen_open [OF assms(1), of backlog le] assms(4) by simp
  qed
  from connect bind listen show ?thesis
    by blast
qed

theorem lost_swap_returns_ERESTART_witness:
  "\<not> fd_closing (fds world1 (sock_FD (sockets world1 13)))
   \<and> state (states world1 (Load 12 world1)) = StatePassive
   \<and> fst (Connect_begin 13 peer 12 11 connect_raced (snd (IncRef 10 world1)))
       = Inr \<lparr> ct_inode = 12, ct_prev = 11, ct_mid = 16, ct_bind = 15, ct_owned = True,
               ct_local = (Addr4 2130706433, 40000), ct_proxy = 14, ct_blocking = True \<rparr>
   \<and> Load 12 (other_swap (snd (Connect_begin 13 peer 12 11 connect_raced (snd (IncRef 10 world1))))) = 17
   \<and> fst (fst (Connect 13 peer connect_raced world1)) = Return ERESTART
   \<and> fst (Bind 13 peer bind_raced world1) = Return ERESTART
   \<and> fst (Listen 13 128 listen_raced world1) = Return ERESTART"
proof -
  let ?w0 = "snd (IncRef 10 world1)"
  let ?ct = "\<lparr> ct_inode = 12, ct_prev = 11, ct_mid = 16, ct_bind = 15, ct_owned = True,
               ct_local = (Addr4 2130706433, 40000), ct_proxy = 14, ct_blocking = True \<rparr>"
  let ?bt = "\<lparr> bt_inode = 12, bt_prev = 11, bt_next = 15, bt_fd = 14, bt_owned = True,
               bt_errno = 0 \<rparr>"
  let ?lt = "\<lparr> lt_inode = 12, lt_prev = 11, lt_next = 14, lt_lis = 9, lt_backlog = 128,
               lt_ephemeral = (Addr4 2130706433, 40000) \<rparr>"
  let ?w1 = "snd (Connect_begin 13 peer 12 11 connect_raced ?w0)"
  let ?w2 = "snd (Bind_begin 13 peer 12 11 bind_raced ?w0)"
  let ?w3 = "snd (Listen_begin 13 128 12 11 listen_raced ?w0)"
  have pre: "\<not> fd_closing (fds world1 (sock_FD (sockets world1 13)))"
    "12 = sock_Inode (sockets world1 13)"
    "state (states world1 (Load 12 world1)) = StatePassive"
    "Load 12 world1 = 11"
    by (simp_all add: world1_fields Load_def newState_def)
  have c: "fst (Connect_begin 13 peer 12 11 connect_raced ?w0) = Inr ?ct"
    "Load 12 (other_swap ?w1) = 17"
    by (simp_all add: model_defs sample_defs world1_fields other_swap_def)
  have b: "fst (Bind_begin 13 peer 12 11 bind_raced ?w0) = Inr ?bt"
    "Load 12 (other_swap ?w2) = 16"
    by (simp_all add: model_defs sample_defs world1_fields other_swap_def)
  have l: "fst (Listen_begin 13 128 12 11 listen_raced ?w0) = Inr ?lt"
    "Load 12 (other_swap ?w3) = 15"
    by (simp_all add: model_defs sample_defs world1_fields other_swap_def word_sless_alt)
  have c': "Connect_begin 13 peer 12 (Load 12 world1) connect_raced ?w0 = (Inr ?ct, ?w1)"
    "Load 12 (cn_interfere connect_raced ?w1) \<noteq> Load 12 world1"
    using c pre(4) by (simp_all add: prod_eq_iff connect_raced_def)
  have b': "Bind_begin 13 peer 12 (Load 12 world1) bind_raced ?w0 = (Inr ?bt, ?w2)"
    "Load 12 (bn_interfere bind_raced ?w2) \<noteq> Load 12 world1"
    using b pre(4) by (simp_all add: prod_eq_iff bind_raced_def)
  have l': "Listen_begin 13 128 12 (Load 12 world1) listen_raced ?w0 = (Inr ?lt, ?w3)"
    "Load 12 (ln_interfere listen_raced ?w3) \<noteq> Load 12 world1"
    using l pre(4) by (simp_all add: prod_eq_iff listen_raced_def)
  have ws: "?w0 = snd (IncRef (sock_FD (sockets world1 13)) world1)"
    by (simp add: world1_fields)
  from lost_swap_returns_ERESTART [OF pre(1) pre(2) pre(3) ws,
      where addr = peer and ce = connect_raced and ct = ?ct and ?w1.0 = ?w1
        and be = bind_raced and bt = ?bt and ?w2.0 = ?w2
        and backlog = 128 and le = listen_raced and lt = ?lt and ?w3.0 = ?w3] c' b' l'
  have "fst (fst (Connect 13 peer connect_raced world1)) = Return ERESTART
      \<and> fst (Bind 13 peer bind_raced world1) = Return ERESTART
      \<and> fst (Listen 13 128 listen_raced world1) = Return ERESTART"
    by blast
  with pre c show ?thesis
    by blast
qed

section \<open>Bind and the address family\<close>

text \<open>
  C10, as the code has it. A \<open>Bind\<close> on an \<open>AF_INET\<close> socket with an address that is
  not IPv4, or on an \<open>AF_INET6\<close> socket with one that is not IPv6, leaves the whole
  memory of the tracer as it was (no temp bind socket, no new state, no swap), and it
  returns \<open>EINVAL\<close>, unless the socket's FD is already closing or the inode is \<open>Closed\<close>:
  then the checks of lines 393 and 404 come first and it returns \<open>EBADF\<close>.
\<close>

theorem Bind_wrong_family:
  assumes "i = sock_Inode (sockets w s)"
    and "Domain (inodes w i) = AF_INET \<and> \<not> Is4 (fst addr)
         \<or> Domain (inodes w i) = AF_INET6 \<and> \<not> Is6 (fst addr)"
  shows "fst (Bind s addr e w)
           = Return (if fd_closing (fds w (sock_FD (sockets w s)))
                        \<or> state (states w (Load i w)) = StateClosed
                     then EBADF else EINVAL)
       \<and> snd (Bind s addr e w) = w"
proof (cases "fd_closing (fds w (sock_FD (sockets w s)))")
  case True
  then show ?thesis
    by (simp add: Bind_def IncRef_def)
next
  case False
  let ?f = "sock_FD (sockets w s)"
  let ?w0 = "snd (IncRef ?f w)"
  have body: "Bind_body s addr e ?w0
                = (Return (if state (states w (Load i w)) = StateClosed then EBADF else EINVAL), ?w0)"
    using assms
    by (cases "state (states w (Load i w))")
       (auto simp: Bind_body_def Bind_passive_def Bind_begin_def Let_def unix_defs)
  show ?thesis
    using False by (simp add: Bind_open body IncRef_DecRef)
qed

theorem Bind_wrong_family_witness:
  "Domain (inodes world1 12) = AF_INET \<and> \<not> Is4 (fst (Addr6 1, 80 :: 16 word))
   \<and> fst (Bind 13 (Addr6 1, 80) bind_quiet world1) = Return EINVAL
   \<and> snd (Bind 13 (Addr6 1, 80) bind_quiet world1) = world1"
  using Bind_wrong_family [of 12 world1 13 "(Addr6 1, 80)" bind_quiet]
  by (simp add: world1_fields Is4_def Load_def newState_def)

text \<open>
  The claim as it was stated, \<open>EINVAL\<close> for every such call, fails on a socket that has
  been closed: the call returns \<open>EBADF\<close>.
\<close>

theorem Bind_wrong_family_closed_counterexample:
  "Domain (inodes world_closed (sock_Inode (sockets world_closed 13))) = AF_INET
   \<and> \<not> Is4 (fst (Addr6 1, 80 :: 16 word))
   \<and> fst (Bind 13 (Addr6 1, 80) bind_quiet world_closed) = Return EBADF
   \<and> EBADF \<noteq> EINVAL"
  by (simp add: world_closed_fields Is4_def Bind_def IncRef_def errno_defs)

section \<open>The latched errno\<close>

lemma finish_cas_latched:
  assumes "finish_cas c a w0 = ((en, False), w)"
  shows "state (states w (Load (cx_inode c) w)) = StatePassive
       \<and> passive_errno (states w (Load (cx_inode c) w)) = en"
  using assms
  by (auto simp: finish_cas_def finish_next_def Let_def allocState_def CompareAndSwap_def
      spawn_def lis_Close_def Load_def newState_def
      split: option.splits sum.splits goerr.splits prod.splits if_splits)

lemma Errno_passive:
  assumes "\<not> fd_closing (fds w (sock_FD (sockets w s)))"
    and "state (states w (Load (sock_Inode (sockets w s)) w)) = StatePassive"
  shows "Errno s w = (passive_errno (states w (Load (sock_Inode (sockets w s)) w)), w)"
  using assms by (simp add: Errno_def IncRef_def DecRef_def Let_def Load_def)

text \<open>
  C4, as the code has it. After the completion goroutine of a failed dial has swapped in
  the passive state with the errno \<open>en\<close> (it reports \<open>shouldCloseBind = false\<close> exactly
  then), \<open>Errno\<close> on a socket of that inode whose FD is open returns \<open>en\<close> and changes
  nothing in the tracer's memory. So it returns \<open>en\<close> again the next time, and every
  time until another operation replaces the state: the latched errno is read, not
  consumed.
\<close>

theorem Errno_latched_every_time:
  assumes "finish_cas c a w0 = ((en, False), w)"
    and "sock_Inode (sockets w s) = cx_inode c"
    and "\<not> fd_closing (fds w (sock_FD (sockets w s)))"
  shows "Errno s w = (en, w) \<and> Errno s (snd (Errno s w)) = (en, w)"
proof -
  have "state (states w (Load (sock_Inode (sockets w s)) w)) = StatePassive"
    and "passive_errno (states w (Load (sock_Inode (sockets w s)) w)) = en"
    using finish_cas_latched [OF assms(1)] assms(2) by simp_all
  then have "Errno s w = (en, w)"
    using Errno_passive [OF assms(3)] by simp
  then show ?thesis
    by simp
qed

theorem Errno_latched_every_time_witness:
  "finish_cas ctx1 async_refused world_connecting
     = ((ECONNREFUSED, False), snd (finish_cas ctx1 async_refused world_connecting))
   \<and> Errno 13 (snd (finish_cas ctx1 async_refused world_connecting))
       = (ECONNREFUSED, snd (finish_cas ctx1 async_refused world_connecting))
   \<and> Errno 13 (snd (Errno 13 (snd (finish_cas ctx1 async_refused world_connecting))))
       = (ECONNREFUSED, snd (finish_cas ctx1 async_refused world_connecting))"
proof -
  let ?w = "snd (finish_cas ctx1 async_refused world_connecting)"
  have f: "finish_cas ctx1 async_refused world_connecting = ((ECONNREFUSED, False), ?w)"
    by (rule world_latched_fields(1))
  have s: "sock_Inode (sockets ?w 13) = cx_inode ctx1"
    "\<not> fd_closing (fds ?w (sock_FD (sockets ?w 13)))"
    by (simp_all add: finish_cas_def finish_next_def allocState_def CompareAndSwap_def
        lis_Close_def Let_def sample_defs world_connecting_fields)
  from Errno_latched_every_time [OF f s] f show ?thesis
    by simp
qed

text \<open>
  The claim as it was stated, that a second retrieval returns 0, fails: after the
  refused dial of the sample connect, \<open>Errno\<close> returns \<open>ECONNREFUSED\<close> the first time
  and the second time.
\<close>

theorem Errno_second_retrieval_counterexample:
  "fst (Errno 13 world_latched) = ECONNREFUSED
   \<and> fst (Errno 13 (snd (Errno 13 world_latched))) = ECONNREFUSED
   \<and> ECONNREFUSED \<noteq> 0"
proof -
  have "Errno 13 world_latched = (ECONNREFUSED, world_latched)"
    using Errno_passive [of world_latched 13] by (simp add: world_latched_fields)
  then show ?thesis
    by (simp add: ECONNREFUSED_def)
qed

section \<open>Closing twice\<close>

text \<open>
  What the other threads may do to a socket \<open>s\<close> and its FD object \<open>f\<close>: the socket
  keeps its fields, and a closing bit that is set stays set (spec 3: the bit is set
  exactly once, after which new reference acquisitions fail).
\<close>

definition kept :: "nat \<Rightarrow> nat \<Rightarrow> world \<Rightarrow> world \<Rightarrow> bool" where
  "kept s f w w' = (sockets w' s = sockets w s \<and> (fd_closing (fds w f) \<longrightarrow> fd_closing (fds w' f)))"

lemma kept_refl: "kept s f w w"
  by (simp add: kept_def)

lemma kept_trans: "kept s f w w1 \<Longrightarrow> kept s f w1 w2 \<Longrightarrow> kept s f w w2"
  by (auto simp: kept_def)

lemma kept_tryCloseBind: "kept s f w (tryCloseBind b w)"
  by (simp add: kept_def tryCloseBind_def closeBind_def ClosingIncRef_def DecRef_def unix_Close_def)

lemma kept_allocState_CAS:
  "kept s f w (snd (CompareAndSwap i old (fst (allocState st w)) (h (snd (allocState st w)))))
     = kept s f w (h (snd (allocState st w)))"
  by (simp add: kept_def CompareAndSwap_def)

lemma kept_allocState: "kept s f w (snd (allocState st w))"
  by (simp add: kept_def allocState_def)

lemma kept_CAS: "kept s f w (snd (CompareAndSwap i old new w))"
  by (simp add: kept_def CompareAndSwap_def)

lemma Close_loop_kept:
  "\<forall>h \<in> set hs. \<forall>x. kept s f x (h x) \<Longrightarrow> kept s f w (snd (Close_loop i hs w))"
proof (induction hs arbitrary: w)
  case Nil
  have "kept s f w (snd (CompareAndSwap i (Load i w) (fst (allocState (newState StateClosed) w))
                           (snd (allocState (newState StateClosed) w))))"
    using kept_trans [OF kept_allocState kept_CAS] .
  then show ?case
    by (simp add: Let_def kept_refl case_prod_beta)
next
  case (Cons h hs)
  let ?w1 = "snd (allocState (newState StateClosed) w)"
  let ?next = "fst (allocState (newState StateClosed) w)"
  let ?w2 = "snd (CompareAndSwap i (Load i w) ?next (h ?w1))"
  have step: "kept s f w ?w2"
    using Cons.prems kept_allocState [of s f w] kept_CAS [of s f "h ?w1"]
    by (meson kept_trans list.set_intros(1))
  have rest: "kept s f ?w2 (snd (Close_loop i hs ?w2))"
    using Cons.IH Cons.prems by simp
  show ?case
  proof (cases "state (states w (Load i w)) = StateClosed")
    case True
    then show ?thesis by (simp add: Let_def kept_refl)
  next
    case False
    show ?thesis
    proof (cases "fst (CompareAndSwap i (Load i w) ?next (h ?w1))")
      case True
      then show ?thesis
        using False step by (simp add: Let_def case_prod_beta bool.case_eq_if)
    next
      case lost: False
      then show ?thesis
        using False kept_trans [OF step rest] by (simp add: Let_def case_prod_beta bool.case_eq_if)
    qed
  qed
qed

lemma Close_release_kept: "kept s f w (snd (Close_release prev w))"
  by (auto simp: Close_release_def Let_def kept_tryCloseBind kept_refl
      split: State.splits option.splits)
     (simp_all add: kept_def conn_Close_def lis_Close_def split: option.splits)

lemma Close_body_kept:
  assumes "\<forall>h \<in> set (cl_interfere e). \<forall>x. kept s f x (h x)"
  shows "kept s f w (snd (Close_body s' e w))"
proof -
  let ?w1 = "unix_Close (fd_num (fds w (sock_FD (sockets w s')))) w"
  let ?w2 = "snd (inode_remove (sock_Inode (sockets w s')) s' ?w1)"
  let ?l = "Close_loop (sock_Inode (sockets w s')) (cl_interfere e) ?w2"
  have k2: "kept s f w ?w2" and k1: "kept s f w ?w1"
    by (simp_all add: kept_def)
  have k3: "kept s f w (snd ?l)"
    using kept_trans [OF k2 Close_loop_kept [OF assms]] .
  have k4: "kept s f w (snd (Close_release prev (snd ?l)))" for prev
    using kept_trans [OF k3 Close_release_kept] .
  show ?thesis
    using k1 k2 k3 k4
    by (simp add: Close_body_def Let_def case_prod_beta bool.case_eq_if
        split: option.splits goerr.splits)
qed

lemma Close_closing:
  "fd_closing (fds w (sock_FD (sockets w s))) \<Longrightarrow> fst (Close s e w) = Return EBADF"
  by (simp add: Close_def ClosingIncRef_def)

text \<open>
  C8. After a \<open>Close\<close> of a socket has returned 0, a second \<open>Close\<close> of the same
  socket returns \<open>EBADF\<close>: the first call set the closing bit of the FD, so the second
  \<open>ClosingIncRef\<close> fails. The threads that interfere with the first call's loop are
  assumed to leave the socket and a set closing bit alone.
\<close>

theorem Close_twice:
  assumes "fst (Close s e w) = Return 0"
    and "\<forall>h \<in> set (cl_interfere e). \<forall>x. kept s (sock_FD (sockets w s)) x (h x)"
  shows "fst (Close s e' (snd (Close s e w))) = Return EBADF"
proof -
  let ?f = "sock_FD (sockets w s)"
  let ?w1 = "snd (ClosingIncRef ?f w)"
  let ?w2 = "snd (Close_body s e ?w1)"
  have opened: "\<not> fd_closing (fds w ?f)"
    using assms(1) by (auto simp: Close_def ClosingIncRef_def errno_defs)
  then have w': "snd (Close s e w) = DecRef ?f ?w2"
    by (simp add: Close_def ClosingIncRef_def case_prod_beta)
  have "fd_closing (fds ?w1 ?f)" "sockets ?w1 s = sockets w s"
    using opened by (simp_all add: ClosingIncRef_def)
  moreover have "kept s ?f ?w1 ?w2"
    using assms(2) by (rule Close_body_kept)
  ultimately have "fd_closing (fds ?w2 ?f)" "sockets ?w2 s = sockets w s"
    by (simp_all add: kept_def)
  then have "fd_closing (fds (DecRef ?f ?w2) (sock_FD (sockets (DecRef ?f ?w2) s)))"
    by (simp add: DecRef_def)
  then have "fd_closing (fds (snd (Close s e w)) (sock_FD (sockets (snd (Close s e w)) s)))"
    by (simp only: w')
  then show ?thesis
    by (rule Close_closing)
qed

theorem Close_twice_witness:
  "fst (Close 13 close_raced world1) = Return 0
   \<and> Load 12 (snd (Close 13 close_raced world1)) = 16
   \<and> state (states (snd (Close 13 close_raced world1)) 16) = StateClosed
   \<and> fst (Close 13 close_quiet (snd (Close 13 close_raced world1))) = Return EBADF"
proof -
  have first: "fst (Close 13 close_raced world1) = Return 0"
    "Load 12 (snd (Close 13 close_raced world1)) = 16"
    "state (states (snd (Close 13 close_raced world1)) 16) = StateClosed"
    by (simp_all add: Close_def Close_body_def close_raced_def other_latch_def ClosingIncRef_def
        world1_fields unix_Close_def inode_remove_def Let_def Load_def allocState_def
        CompareAndSwap_def Close_release_def newState_def DecRef_def)
  have "kept 13 (sock_FD (sockets world1 13)) x (other_latch x)" for x
    by (simp add: kept_def other_latch_def allocState_def CompareAndSwap_def Let_def)
  then have "\<forall>h \<in> set (cl_interfere close_raced). \<forall>x. kept 13 (sock_FD (sockets world1 13)) x (h x)"
    by (simp add: close_raced_def)
  from Close_twice [OF first(1) this, of close_quiet] first show ?thesis
    by simp
qed

section \<open>A dial that fails\<close>

lemma finish_cas_dial_failed:
  assumes "as_accept a = Some pc" and "as_dial a = Inl (Syscall en)"
    and "Load (cx_inode c) w = cx_mid c"
  shows "fst (finish_cas c a w) = (en, False)"
    and "Load (cx_inode c) (snd (finish_cas c a w)) = fresh w"
    and "states (snd (finish_cas c a w)) (fresh w)
           = (newState StatePassive) \<lparr> passive_bind := connecting_bind (states w (cx_mid c)),
                                       passive_errno := en \<rparr>"
    and "fds (snd (finish_cas c a w)) = fds w"
    and "closed_fds (snd (finish_cas c a w)) = closed_fds w"
  using assms
  by (simp_all add: finish_cas_def finish_next_def Let_def allocState_def CompareAndSwap_def
      lis_Close_def Load_def newState_def)

lemma finish_cleanup_keeps_bind:
  "fds (finish_cleanup c en False w) = fds w"
  "closed_fds (finish_cleanup c en False w) = closed_fds w"
  "states (finish_cleanup c en False w) = states w"
  "inodes (finish_cleanup c en False w) = inodes w"
  by (simp_all add: finish_cleanup_def conn_Close_def Let_def split: option.splits)

text \<open>
  C3, as the code has it. Let the completion goroutine of a \<open>Connect\<close> find that the
  accept on the dummy listener gave a connection, that the external dial failed with the
  errno \<open>en\<close>, and that the state slot still holds its \<open>Connecting\<close> state \<open>mid\<close>.
  Then it swaps in a new \<open>Passive\<close> state whose errno is \<open>en\<close> and whose bind socket is
  the temp bind socket of \<open>mid\<close>, it sends \<open>en\<close>, and neither it nor what it runs after
  the send touches an FD object or closes a descriptor: the temp bind socket stays open.
\<close>

theorem dial_failure_latches:
  assumes "as_accept a = Some pc" and "as_dial a = Inl (Syscall en)"
    and "Load (cx_inode c) w = cx_mid c"
    and "state (states w (cx_mid c)) = StateConnecting"
    and "w' = finish_cleanup c en False (snd (finish_cas c a w))"
  shows "fst (finish_cas c a w) = (en, False)
       \<and> state (states w' (Load (cx_inode c) w')) = StatePassive
       \<and> passive_errno (states w' (Load (cx_inode c) w')) = en
       \<and> passive_bind (states w' (Load (cx_inode c) w')) = connecting_bind (states w (cx_mid c))
       \<and> fds w' = fds w
       \<and> closed_fds w' = closed_fds w"
proof -
  let ?w1 = "snd (finish_cas c a w)"
  have 1: "Load (cx_inode c) w' = fresh w"
    using finish_cas_dial_failed(2) [OF assms(1-3)] assms(5)
    by (simp add: Load_def finish_cleanup_keeps_bind)
  have 2: "states w' (fresh w)
           = (newState StatePassive) \<lparr> passive_bind := connecting_bind (states w (cx_mid c)),
                                       passive_errno := en \<rparr>"
    using finish_cas_dial_failed(3) [OF assms(1-3)] assms(5)
    by (simp add: finish_cleanup_keeps_bind)
  have 3: "fds w' = fds w" "closed_fds w' = closed_fds w"
    using finish_cas_dial_failed(4,5) [OF assms(1-3)] assms(5)
    by (simp_all add: finish_cleanup_keeps_bind)
  show ?thesis
    using finish_cas_dial_failed(1) [OF assms(1-3)] 1 2 3 by (simp add: newState_def)
qed

theorem dial_failure_latches_witness:
  "as_accept async_refused = Some \<lparr> conn_id = 1, conn_local = (Addr4 2130706433, 40002) \<rparr>
   \<and> as_dial async_refused = Inl (Syscall ECONNREFUSED)
   \<and> Load (cx_inode ctx1) world_connecting = cx_mid ctx1
   \<and> state (states world_connecting (cx_mid ctx1)) = StateConnecting
   \<and> fst (finish_cas ctx1 async_refused world_connecting) = (ECONNREFUSED, False)
   \<and> state (states world_latched (Load (cx_inode ctx1) world_latched)) = StatePassive
   \<and> passive_errno (states world_latched (Load (cx_inode ctx1) world_latched)) = ECONNREFUSED
   \<and> passive_bind (states world_latched (Load (cx_inode ctx1) world_latched)) = Some 15
   \<and> fds world_latched = fds world_connecting
   \<and> closed_fds world_latched = closed_fds world_connecting"
proof -
  have pre: "as_accept async_refused = Some \<lparr> conn_id = 1, conn_local = (Addr4 2130706433, 40002) \<rparr>"
    "as_dial async_refused = Inl (Syscall ECONNREFUSED)"
    "Load (cx_inode ctx1) world_connecting = cx_mid ctx1"
    "state (states world_connecting (cx_mid ctx1)) = StateConnecting"
    "world_latched = finish_cleanup ctx1 ECONNREFUSED False (snd (finish_cas ctx1 async_refused world_connecting))"
    by (simp_all add: async_refused_def ctx1_def world_connecting_fields world_latched_def)
  have "connecting_bind (states world_connecting (cx_mid ctx1)) = Some 15"
    by (simp add: ctx1_def world_connecting_fields)
  with dial_failure_latches [OF pre] pre show ?thesis
    by simp
qed

text \<open>
  The claim as it was stated, for every \<open>Connect\<close> whose dial fails with an errno, fails
  when another thread has closed the inode while the dial was in flight: the blocking
  sample connect, refused, returns \<open>ERESTART\<close>; the slot holds the \<open>Closed\<close> state and no
  \<open>Passive\<close> one, and after the completion's tail the temp bind socket (descriptor 4) is
  closed.
\<close>

theorem dial_failure_closed_counterexample:
  "as_dial async_closed = Inl (Syscall ECONNREFUSED)
   \<and> fst (Connect 13 peer (connect_quiet 0 async_closed) world1)
       = (Return ERESTART, Cleanup ctx1 ERESTART True)
   \<and> state (states (snd (Connect 13 peer (connect_quiet 0 async_closed) world1))
        (Load 12 (snd (Connect 13 peer (connect_quiet 0 async_closed) world1)))) = StateClosed
   \<and> closed_fds (finish_cleanup ctx1 ERESTART True
        (snd (Connect 13 peer (connect_quiet 0 async_closed) world1))) = [4]
   \<and> fd_closing (fds (finish_cleanup ctx1 ERESTART True
        (snd (Connect 13 peer (connect_quiet 0 async_closed) world1))) 15)"
  by (simp add: model_defs sample_defs world1_fields other_swap_def)

section \<open>Blocking and non-blocking connect\<close>

lemma Connect_reaches_commit:
  assumes "\<not> fd_closing (fds w (sock_FD (sockets w s)))"
    and "i = sock_Inode (sockets w s)"
    and "state (states w (Load i w)) = StatePassive"
    and "Connect_begin s addr i (Load i w) e (snd (IncRef (sock_FD (sockets w s)) w)) = (Inr t, w1)"
  shows "fst (Connect s addr e w) = fst (Connect_commit t e (cn_interfere e w1))"
proof -
  let ?w0 = "snd (IncRef (sock_FD (sockets w s)) w)"
  have w0: "sock_Inode (sockets ?w0 s) = i" "Load i ?w0 = Load i w"
    "state (states ?w0 (Load (sock_Inode (sockets ?w0 s)) ?w0)) = StatePassive"
    using assms by simp_all
  have "Connect_body s addr e ?w0 = Connect_commit t e (cn_interfere e w1)"
    using Connect_body_passive [OF w0(3)] Connect_passive_ticket [OF assms(4)] w0(1,2) by simp
  then show ?thesis
    using Connect_open [OF assms(1), of addr e] by simp
qed

lemma Connect_begin_blocking:
  "Connect_begin s addr i prev e w = (Inr t, w1) \<Longrightarrow> cn_fcntl e = Inr flags \<Longrightarrow>
     ct_blocking t = (flags AND O_NONBLOCK = 0)"
  by (auto simp: Connect_begin_def Let_def newProxy_def allocState_def
      split: prod.splits sum.splits option.splits if_splits)

lemma Connect_begin_async:
  "Connect_begin s addr i prev (e\<lparr> cn_async := a' \<rparr>) w = Connect_begin s addr i prev e w"
proof -
  have "Connect_tempbind d (e\<lparr> cn_async := a' \<rparr>) x = Connect_tempbind d e x" for d x
    by (simp add: Connect_tempbind_def
        cong: prod.case_cong sum.case_cong option.case_cong go.case_cong)
  then show ?thesis
    by (simp add: Connect_begin_def
        cong: prod.case_cong sum.case_cong option.case_cong if_cong)
qed

lemma Connect_commit_blocking:
  assumes "Load (ct_inode t) w = ct_prev t"
    and "cn_dummy e = Some (lis, daddr)" and "Is4 (fst daddr) \<or> Is6 (fst daddr)"
    and "cn_loopback e \<noteq> Some Opaque"
    and "ct_blocking t"
    and "r = fst (finish_cas (captured t lis) (cn_async e)
                  (as_interfere (cn_async e)
                     (snd (CompareAndSwap (ct_inode t) (ct_prev t) (ct_mid t) w))))"
  shows "fst (Connect_commit t e w)
           = (Return (if fst r \<noteq> 0 then fst r
                      else (case cn_loopback e of Some (Syscall x) \<Rightarrow> x | _ \<Rightarrow> 0)),
              Cleanup (captured t lis) (fst r) (snd r))"
  using assms
  by (cases "cn_loopback e")
     (auto simp: Connect_commit_def CompareAndSwap_def Load_def Let_def case_prod_beta
      split: goerr.splits)

lemma Connect_commit_nonblocking:
  assumes "Load (ct_inode t) w = ct_prev t"
    and "cn_dummy e = Some (lis, daddr)" and "Is4 (fst daddr) \<or> Is6 (fst daddr)"
    and "cn_loopback e \<noteq> Some Opaque"
    and "\<not> ct_blocking t"
  shows "Connect_commit t e w
           = ((Return (case cn_loopback e of Some (Syscall x) \<Rightarrow> x | _ \<Rightarrow> 0),
               Completion (captured t lis)),
              snd (CompareAndSwap (ct_inode t) (ct_prev t) (ct_mid t) w))"
  using assms
  by (cases "cn_loopback e")
     (auto simp: Connect_commit_def CompareAndSwap_def Load_def Let_def case_prod_beta
      split: goerr.splits)

lemma finish_cas_errno:
  "fst (fst (finish_cas c a w))
     = (case as_accept a of
          None \<Rightarrow> ENOSYS
        | Some pc \<Rightarrow>
            (case as_dial a of
               Inl Opaque \<Rightarrow> ENOSYS
             | Inl (Syscall en) \<Rightarrow> if Load (cx_inode c) w = cx_mid c then en else ERESTART
             | Inr xc \<Rightarrow> if Load (cx_inode c) w = cx_mid c then 0 else ERESTART))"
  by (simp add: finish_cas_def finish_next_def Let_def allocState_def CompareAndSwap_def
      spawn_def lis_Close_def Load_def split: option.splits sum.splits goerr.splits)

lemma Connect_to_commit:
  assumes "\<not> fd_closing (fds w (sock_FD (sockets w s)))"
    and "i = sock_Inode (sockets w s)"
    and "state (states w (Load i w)) = StatePassive"
    and "Connect_begin s addr i (Load i w) e (snd (IncRef (sock_FD (sockets w s)) w)) = (Inr t, w1)"
  shows "Connect s addr e w
           = (fst (Connect_commit t e (cn_interfere e w1)),
              DecRef (sock_FD (sockets w s)) (snd (Connect_commit t e (cn_interfere e w1))))"
proof -
  let ?w0 = "snd (IncRef (sock_FD (sockets w s)) w)"
  have w0: "sock_Inode (sockets ?w0 s) = i" "Load i ?w0 = Load i w"
    "state (states ?w0 (Load (sock_Inode (sockets ?w0 s)) ?w0)) = StatePassive"
    using assms by simp_all
  have "Connect_body s addr e ?w0 = Connect_commit t e (cn_interfere e w1)"
    using Connect_body_passive [OF w0(3)] Connect_passive_ticket [OF assms(4)] w0(1,2) by simp
  then show ?thesis
    using Connect_open [OF assms(1), of addr e] by simp
qed

text \<open>
  C1, as the code has it. Take a \<open>Connect\<close> on an open socket of a passive inode that
  wins its compare-and-swap and gets its dummy listener, and whose loopback
  \<open>connect(2)\<close> yields \<open>dummyErrno\<close>.

  On a blocking socket the call returns only after the completion goroutine has read the
  results of the dummy accept and of the dial and has sent its errno: what is left to run
  is the tail after the send. It returns the dial's errno \<open>en\<close> when the accept gave a
  connection, the dial failed with \<open>en \<noteq> 0\<close> and the completion's swap found the slot
  still holding \<open>mid\<close>; it returns \<open>ENOSYS\<close> when the accept on the dummy listener
  failed, whatever the dial did, and \<open>ERESTART\<close> when the dial failed with an errno but
  the slot no longer held \<open>mid\<close>.

  On a non-blocking socket the call returns \<open>dummyErrno\<close> with the whole completion
  still to run, and neither its result nor the memory it leaves depends on what the
  accept and the dial will give (\<open>cn_async\<close>).
\<close>

theorem Connect_blocking_or_not:
  assumes "\<not> fd_closing (fds w (sock_FD (sockets w s)))"
    and "i = sock_Inode (sockets w s)"
    and "state (states w (Load i w)) = StatePassive"
    and "Connect_begin s addr i (Load i w) e (snd (IncRef (sock_FD (sockets w s)) w)) = (Inr t, w1)"
    and "Load i (cn_interfere e w1) = Load i w"
    and "cn_dummy e = Some (lis, daddr)" and "Is4 (fst daddr) \<or> Is6 (fst daddr)"
    and "cn_loopback e \<noteq> Some Opaque"
    and "dummyErrno = (case cn_loopback e of Some (Syscall x) \<Rightarrow> x | _ \<Rightarrow> 0)"
    and "cn_fcntl e = Inr flags"
    and "wc = as_interfere (cn_async e)
                (snd (CompareAndSwap i (Load i w) (ct_mid t) (cn_interfere e w1)))"
  shows "(flags AND O_NONBLOCK = 0 \<longrightarrow>
            snd (fst (Connect s addr e w))
              = Cleanup (captured t lis)
                  (fst (fst (finish_cas (captured t lis) (cn_async e) wc)))
                  (snd (fst (finish_cas (captured t lis) (cn_async e) wc)))
          \<and> (as_accept (cn_async e) \<noteq> None \<and> as_dial (cn_async e) = Inl (Syscall en)
               \<and> en \<noteq> 0 \<and> Load i wc = ct_mid t
             \<longrightarrow> fst (fst (Connect s addr e w)) = Return en)
          \<and> (as_accept (cn_async e) = None
             \<longrightarrow> fst (fst (Connect s addr e w)) = Return ENOSYS)
          \<and> (as_accept (cn_async e) \<noteq> None \<and> as_dial (cn_async e) = Inl (Syscall en)
               \<and> Load i wc \<noteq> ct_mid t
             \<longrightarrow> fst (fst (Connect s addr e w)) = Return ERESTART))
       \<and> (flags AND O_NONBLOCK \<noteq> 0 \<longrightarrow>
            fst (Connect s addr e w) = (Return dummyErrno, Completion (captured t lis))
          \<and> (\<forall>a'. Connect s addr (e\<lparr> cn_async := a' \<rparr>) w = Connect s addr e w))"
proof -
  let ?f = "sock_FD (sockets w s)"
  let ?c = "captured t lis"
  let ?wi = "cn_interfere e w1"
  let ?r = "fst (finish_cas ?c (cn_async e) wc)"
  have tk: "ct_inode t = i" "ct_prev t = Load i w"
    using Connect_begin_ticket [OF assms(4)] by simp_all
  have won: "Load (ct_inode t) ?wi = ct_prev t"
    using tk assms(5) by simp
  have blk: "ct_blocking t = (flags AND O_NONBLOCK = 0)"
    using assms(4,10) by (rule Connect_begin_blocking)
  have whole: "Connect s addr e w = (fst (Connect_commit t e ?wi), DecRef ?f (snd (Connect_commit t e ?wi)))"
    using assms(1-4) by (rule Connect_to_commit)
  have blocking: ?thesis if b: "flags AND O_NONBLOCK = 0"
  proof -
    have r: "?r = fst (finish_cas ?c (cn_async e)
                  (as_interfere (cn_async e)
                     (snd (CompareAndSwap (ct_inode t) (ct_prev t) (ct_mid t) ?wi))))"
      using tk assms(11) by simp
    have res: "fst (Connect s addr e w)
                 = (Return (if fst ?r \<noteq> 0 then fst ?r else dummyErrno), Cleanup ?c (fst ?r) (snd ?r))"
      using Connect_commit_blocking [OF won assms(6,7,8) _ r] blk b whole assms(9) by simp
    have errno: "fst ?r = (case as_accept (cn_async e) of
          None \<Rightarrow> ENOSYS
        | Some pc \<Rightarrow>
            (case as_dial (cn_async e) of
               Inl Opaque \<Rightarrow> ENOSYS
             | Inl (Syscall en) \<Rightarrow> if Load i wc = ct_mid t then en else ERESTART
             | Inr xc \<Rightarrow> if Load i wc = ct_mid t then 0 else ERESTART))"
      using finish_cas_errno [of ?c "cn_async e" wc] tk
      by (simp add: captured_def split: option.splits sum.splits goerr.splits)
    show ?thesis
      using b res errno by (auto simp: errno_defs)
  qed
  have nonblocking: ?thesis if nb: "flags AND O_NONBLOCK \<noteq> 0"
  proof -
    have commit: "Connect_commit t e ?wi
           = ((Return dummyErrno, Completion ?c),
              snd (CompareAndSwap (ct_inode t) (ct_prev t) (ct_mid t) ?wi))"
      using Connect_commit_nonblocking [OF won assms(6,7,8)] blk nb assms(9) by simp
    have same: "Connect s addr (e\<lparr> cn_async := a' \<rparr>) w = Connect s addr e w" for a'
    proof -
      let ?e = "e\<lparr> cn_async := a' \<rparr>"
      have b': "Connect_begin s addr i (Load i w) ?e (snd (IncRef ?f w)) = (Inr t, w1)"
        using assms(4) by (simp add: Connect_begin_async)
      have whole': "Connect s addr ?e w
                      = (fst (Connect_commit t ?e ?wi), DecRef ?f (snd (Connect_commit t ?e ?wi)))"
        using Connect_to_commit [OF assms(1-3) b'] by simp
      have "Connect_commit t ?e ?wi
           = ((Return dummyErrno, Completion ?c),
              snd (CompareAndSwap (ct_inode t) (ct_prev t) (ct_mid t) ?wi))"
        using Connect_commit_nonblocking [of t ?wi ?e lis daddr] won assms(6,7,8,9) blk nb by simp
      then show ?thesis
        using whole whole' commit by simp
    qed
    show ?thesis
      using nb whole commit same by simp
  qed
  from blocking nonblocking show ?thesis
    by blast
qed

theorem Connect_blocking_or_not_witness:
  "fst (Connect 13 peer (connect_quiet 0 async_refused) world1)
     = (Return ECONNREFUSED, Cleanup ctx1 ECONNREFUSED False)
   \<and> fst (Connect 13 peer (connect_quiet O_NONBLOCK async_refused) world1)
     = (Return 0, Completion ctx1)
   \<and> Connect 13 peer ((connect_quiet O_NONBLOCK async_refused) \<lparr> cn_async := async_accept_failed \<rparr>) world1
     = Connect 13 peer (connect_quiet O_NONBLOCK async_refused) world1"
proof -
  let ?w0 = "snd (IncRef (sock_FD (sockets world1 13)) world1)"
  let ?eb = "connect_quiet 0 async_refused"
  let ?en = "connect_quiet O_NONBLOCK async_refused"
  let ?tb = "\<lparr> ct_inode = 12, ct_prev = 11, ct_mid = 16, ct_bind = 15, ct_owned = True,
               ct_local = (Addr4 2130706433, 40000), ct_proxy = 14, ct_blocking = True \<rparr>"
  let ?tn = "\<lparr> ct_inode = 12, ct_prev = 11, ct_mid = 16, ct_bind = 15, ct_owned = True,
               ct_local = (Addr4 2130706433, 40000), ct_proxy = 14, ct_blocking = False \<rparr>"
  let ?wb = "snd (Connect_begin 13 peer 12 (Load 12 world1) ?eb ?w0)"
  let ?wn = "snd (Connect_begin 13 peer 12 (Load 12 world1) ?en ?w0)"
  let ?wcb = "as_interfere (cn_async ?eb) (snd (CompareAndSwap 12 (Load 12 world1) (ct_mid ?tb) (cn_interfere ?eb ?wb)))"
  let ?wcn = "as_interfere (cn_async ?en) (snd (CompareAndSwap 12 (Load 12 world1) (ct_mid ?tn) (cn_interfere ?en ?wn)))"
  have pre: "\<not> fd_closing (fds world1 (sock_FD (sockets world1 13)))"
    "12 = sock_Inode (sockets world1 13)"
    "state (states world1 (Load 12 world1)) = StatePassive"
    by (simp_all add: world1_fields Load_def newState_def)
  have bb: "fst (Connect_begin 13 peer 12 (Load 12 world1) ?eb ?w0) = Inr ?tb"
    "Load 12 (cn_interfere ?eb ?wb) = Load 12 world1"
    "Load 12 ?wcb = ct_mid ?tb"
    by (simp_all add: model_defs sample_defs world1_fields)
  have bn: "fst (Connect_begin 13 peer 12 (Load 12 world1) ?en ?w0) = Inr ?tn"
    "Load 12 (cn_interfere ?en ?wn) = Load 12 world1"
    by (simp_all add: model_defs sample_defs world1_fields)
  have bb': "Connect_begin 13 peer 12 (Load 12 world1) ?eb ?w0 = (Inr ?tb, ?wb)"
    using bb(1) by (simp add: prod_eq_iff)
  have bn': "Connect_begin 13 peer 12 (Load 12 world1) ?en ?w0 = (Inr ?tn, ?wn)"
    using bn(1) by (simp add: prod_eq_iff)
  have env: "cn_dummy ?eb = Some (7, (Addr4 2130706433, 40002))"
    "cn_dummy ?en = Some (7, (Addr4 2130706433, 40002))"
    "Is4 (fst (Addr4 2130706433, 40002 :: 16 word)) \<or> Is6 (fst (Addr4 2130706433, 40002 :: 16 word))"
    "cn_loopback ?eb \<noteq> Some Opaque" "cn_loopback ?en \<noteq> Some Opaque"
    "(0 :: errno) = (case cn_loopback ?eb of Some (Syscall x) \<Rightarrow> x | _ \<Rightarrow> 0)"
    "(0 :: errno) = (case cn_loopback ?en of Some (Syscall x) \<Rightarrow> x | _ \<Rightarrow> 0)"
    "cn_fcntl ?eb = Inr 0" "cn_fcntl ?en = Inr O_NONBLOCK"
    "as_accept (cn_async ?eb) \<noteq> None" "as_dial (cn_async ?eb) = Inl (Syscall ECONNREFUSED)"
    "ECONNREFUSED \<noteq> 0" "(0 :: int) AND O_NONBLOCK = 0" "O_NONBLOCK AND O_NONBLOCK \<noteq> 0"
    by (simp_all add: sample_defs)
  have cap: "captured ?tb 7 = ctx1" "captured ?tn 7 = ctx1"
    by (simp_all add: captured_def ctx1_def)
  have sent: "fst (finish_cas ctx1 (cn_async ?eb) ?wcb) = (ECONNREFUSED, False)"
    using finish_cas_dial_failed(1) [of "cn_async ?eb" _ ECONNREFUSED ctx1 ?wcb] bb(3)
    by (simp add: sample_defs)
  have blocking: "fst (Connect 13 peer ?eb world1) = (Return ECONNREFUSED, Cleanup ctx1 ECONNREFUSED False)"
    using Connect_blocking_or_not [OF pre bb' bb(2) env(1) env(3) env(4) env(6) env(8) refl,
        where en = ECONNREFUSED] env(10-13) bb(3) cap sent
    by (simp add: prod_eq_iff)
  have nonblocking: "fst (Connect 13 peer ?en world1) = (Return 0, Completion ctx1)
      \<and> (\<forall>a'. Connect 13 peer (?en \<lparr> cn_async := a' \<rparr>) world1 = Connect 13 peer ?en world1)"
    using Connect_blocking_or_not [OF pre bn' bn(2) env(2) env(3) env(5) env(7) env(9) refl,
        where en = ECONNREFUSED] env(14) cap
    by simp
  from blocking nonblocking show ?thesis
    by blast
qed

text \<open>
  The claim as it was stated, that a blocking \<open>Connect\<close> returns the dial's errno when
  the dial failed, fails when the accept on the dummy listener fails as well: the dial
  was refused, and the call returns \<open>ENOSYS\<close> (lines 224 to 232).
\<close>

theorem Connect_accept_failed_counterexample:
  "cn_fcntl (connect_quiet 0 async_accept_failed) = Inr 0
   \<and> as_dial (cn_async (connect_quiet 0 async_accept_failed)) = Inl (Syscall ECONNREFUSED)
   \<and> fst (Connect 13 peer (connect_quiet 0 async_accept_failed) world1)
       = (Return ENOSYS, Cleanup ctx1 ENOSYS True)
   \<and> ENOSYS \<noteq> ECONNREFUSED"
  by (simp add: model_defs sample_defs world1_fields)

section \<open>The proxy an Accept receives\<close>

text \<open>
  Once a \<open>Listen\<close> has installed its listening state and made its buffer, the accept
  loop, the dispatch loop with one goroutine for each proxy it takes from the buffer, and
  the \<open>Accept\<close> calls of the target work on that state and that buffer side by side. A
  \<open>serving\<close> is the memory together with what these goroutines hold between two of their
  steps: \<open>sv_dialing\<close> are the proxies taken from the buffer whose dial has not returned;
  \<open>sv_sending\<close> are the goroutines of the dispatch loop after their \<open>LoadOrStore\<close>, each
  with its channel, its proxy, its address and whether its \<open>Delete\<close> is still to come;
  \<open>sv_receiving\<close> are the \<open>Accept\<close> calls after their \<open>LoadOrStore\<close>, each with its socket,
  its channel, its address, the descriptor \<open>accept4\<close> gave, whether its \<open>Delete\<close> is still
  to come, and what the kernel answers to that call.
\<close>

record serving =
  sv_world :: world
  sv_dialing :: "nat list"
  sv_sending :: "(nat \<times> nat \<times> AddrPort \<times> bool) list"
  sv_receiving :: "(nat \<times> nat \<times> AddrPort \<times> int \<times> bool \<times> accept_env) list"


text \<open>
  The address under which the dispatch loop registers a proxy (lines 616 to 619); the
  channels that the backlog of the state or one of these goroutines holds for an address;
  and the proxies that are in the buffer, with a dialing goroutine, with a sending
  goroutine or in one of those channels.
\<close>

definition proxy_key :: "world \<Rightarrow> nat \<Rightarrow> AddrPort option" where
  "proxy_key w p =
     (case proxy_process (proxies w p) of
        None \<Rightarrow> None
      | Some pc \<Rightarrow> map_option unmapped (ParseAddrPort (TCPAddr_String (conn_local pc))))"

definition chan_for :: "nat \<Rightarrow> serving \<Rightarrow> nat \<Rightarrow> AddrPort \<Rightarrow> bool" where
  "chan_for st v c k =
     (listening_backlog (states (sv_world v) st) k = Some c
      \<or> (\<exists>p l. (c, p, k, l) \<in> set (sv_sending v))
      \<or> (\<exists>s r l. (s, c, k, r, l) \<in> set (sv_receiving v)))"

definition held :: "nat \<Rightarrow> nat \<Rightarrow> serving \<Rightarrow> nat \<Rightarrow> bool" where
  "held st buffer v p =
     (p \<in> set (chan_buf (chans (sv_world v) buffer) @ sv_dialing v)
      \<or> (\<exists>c k l. (c, p, k, l) \<in> set (sv_sending v))
      \<or> (\<exists>c k. chan_for st v c k \<and> p \<in> set (chan_buf (chans (sv_world v) c))))"


text \<open>
  What other goroutines may do meanwhile. The buffer, the channels and the proxies above
  are held only in local variables of the goroutines of this \<open>Listen\<close> and in the backlog
  of its state, and the backlog is read and written at lines 622, 624, 676 and 678 only:
  a step of any other goroutine leaves them as they are. It may change everything else,
  also the other fields of the listening state (\<open>Close\<close> clears \<open>active\<close>).
\<close>

definition apart :: "nat \<Rightarrow> nat \<Rightarrow> serving \<Rightarrow> world \<Rightarrow> bool" where
  "apart st buffer v w' =
     (fresh (sv_world v) \<le> fresh w'
      \<and> listening_backlog (states w' st) = listening_backlog (states (sv_world v) st)
      \<and> chans w' buffer = chans (sv_world v) buffer
      \<and> (\<forall>c k. chan_for st v c k \<longrightarrow> chans w' c = chans (sv_world v) c)
      \<and> (\<forall>p. held st buffer v p \<longrightarrow>
            proxy_process (proxies w' p) = proxy_process (proxies (sv_world v) p)))"


text \<open>
  One step of the serving of the state \<open>st\<close> with the buffer \<open>buffer\<close>. \<open>LoadOrStore\<close>,
  \<open>Delete\<close>, a send and a receive are one step each, in the order of the source; what a
  goroutine does on objects no other goroutine can reach yet (the new proxy, \<open>p.process\<close>,
  the new channel) is joined to its next step. A goroutine of the dispatch loop whose
  \<open>MustParseAddrPort\<close> panics ends the tracer, so no step follows it. A send on a full
  channel and a receive from an empty one have no step: they wait.
\<close>

inductive serve :: "nat \<Rightarrow> nat \<Rightarrow> serving \<Rightarrow> serving \<Rightarrow> bool"
  for st buffer where
  external:
    "AcceptLoop_push buffer xc (sv_world v) = Some w' \<Longrightarrow>
       serve st buffer v (v\<lparr> sv_world := w' \<rparr>)"
| exited:
    "serve st buffer v (v\<lparr> sv_world := AcceptLoop_exit lis st buffer (sv_world v) \<rparr>)"
| take:
    "DispatchLoop_take buffer (sv_world v) = Some (p, w') \<Longrightarrow>
       serve st buffer v (v\<lparr> sv_world := w', sv_dialing := p # sv_dialing v \<rparr>)"
| dial_failed:
    "p \<in> set (sv_dialing v) \<Longrightarrow> Dispatch_dial st p None (sv_world v) = (DialFailed, w') \<Longrightarrow>
       serve st buffer v (v\<lparr> sv_world := w', sv_dialing := remove1 p (sv_dialing v) \<rparr>)"
| registered:
    "p \<in> set (sv_dialing v) \<Longrightarrow>
     Dispatch_dial st p (Some pc) (sv_world v) = (Registered ch k l, w') \<Longrightarrow>
       serve st buffer v
         (v\<lparr> sv_world := w', sv_dialing := remove1 p (sv_dialing v),
             sv_sending := (ch, p, k, l) # sv_sending v \<rparr>)"
| sender_delete:
    "(ch, p, k, True) \<in> set (sv_sending v) \<Longrightarrow>
       serve st buffer v
         (v\<lparr> sv_world := backlog_Delete st k (sv_world v),
             sv_sending := (ch, p, k, False) # remove1 (ch, p, k, True) (sv_sending v) \<rparr>)"
| sent:
    "(ch, p, k, False) \<in> set (sv_sending v) \<Longrightarrow> chan_send ch p (sv_world v) = Some w' \<Longrightarrow>
       serve st buffer v
         (v\<lparr> sv_world := w', sv_sending := remove1 (ch, p, k, False) (sv_sending v) \<rparr>)"
| accepting:
    "Accept_begin s flags e (sv_world v) = (Receiving st ch a r l, w') \<Longrightarrow>
       serve st buffer v (v\<lparr> sv_world := w', sv_receiving := (s, ch, a, r, l, e) # sv_receiving v \<rparr>)"
| receiver_delete:
    "(s, ch, a, r, True, e) \<in> set (sv_receiving v) \<Longrightarrow>
       serve st buffer v
         (v\<lparr> sv_world := backlog_Delete st a (sv_world v),
             sv_receiving := (s, ch, a, r, False, e) # remove1 (s, ch, a, r, True, e) (sv_receiving v) \<rparr>)"
| received:
    "(s, ch, a, r, False, e) \<in> set (sv_receiving v) \<Longrightarrow>
     Accept_end s ch a r e (sv_world v) = Some (res, w') \<Longrightarrow>
       serve st buffer v
         (v\<lparr> sv_world := w', sv_receiving := remove1 (s, ch, a, r, False, e) (sv_receiving v) \<rparr>)"
| others:
    "apart st buffer v w' \<Longrightarrow> serve st buffer v (v\<lparr> sv_world := w' \<rparr>)"


text \<open>
  What holds in every serving: the proxies still in the buffer or dialing are distinct
  and have no process-side connection; a channel is held for one address only; and every
  proxy in such a channel, or on its way into it, was registered under the address the
  channel is held for.
\<close>

definition paired :: "nat \<Rightarrow> nat \<Rightarrow> serving \<Rightarrow> bool" where
  "paired st buffer v =
     (st < fresh (sv_world v) \<and> buffer < fresh (sv_world v)
      \<and> distinct (chan_buf (chans (sv_world v) buffer) @ sv_dialing v)
      \<and> (\<forall>p \<in> set (chan_buf (chans (sv_world v) buffer) @ sv_dialing v).
            p < fresh (sv_world v) \<and> proxy_process (proxies (sv_world v) p) = None)
      \<and> (\<forall>c k k'. chan_for st v c k \<longrightarrow> chan_for st v c k' \<longrightarrow> k = k')
      \<and> (\<forall>c k. chan_for st v c k \<longrightarrow>
            c < fresh (sv_world v) \<and> c \<noteq> buffer
            \<and> (\<forall>q \<in> set (chan_buf (chans (sv_world v) c)).
                  q < fresh (sv_world v) \<and> proxy_key (sv_world v) q = Some k))
      \<and> (\<forall>c p k l. (c, p, k, l) \<in> set (sv_sending v) \<longrightarrow>
            p < fresh (sv_world v) \<and> proxy_key (sv_world v) p = Some k))"


lemma key_text:
  "map_option unmapped (ParseAddrPort (TCPAddr_String l)) = Some a \<Longrightarrow>
     TCPAddr_String l = AddrPort_String a"
  by (cases l; cases "fst l")
     (auto simp: TCPAddr_String_def AddrPort_String_def ParseAddrPort_def unmapped_def
      split: if_splits)

lemma key_addr:
  "map_option unmapped (ParseAddrPort (TCPAddr_String l)) = Some a \<Longrightarrow> unmapped l = a"
  by (cases l; cases "fst l")
     (auto simp: TCPAddr_String_def ParseAddrPort_def unmapped_def Is4In6_def
      split: if_splits)

lemma pairedI:
  assumes "st < fresh (sv_world v)" and "buffer < fresh (sv_world v)"
    and "distinct (chan_buf (chans (sv_world v) buffer) @ sv_dialing v)"
    and "\<And>p. p \<in> set (chan_buf (chans (sv_world v) buffer)) \<or> p \<in> set (sv_dialing v) \<Longrightarrow>
           p < fresh (sv_world v) \<and> proxy_process (proxies (sv_world v) p) = None"
    and "\<And>c k k'. chan_for st v c k \<Longrightarrow> chan_for st v c k' \<Longrightarrow> k = k'"
    and "\<And>c k. chan_for st v c k \<Longrightarrow> c < fresh (sv_world v) \<and> c \<noteq> buffer"
    and "\<And>c k q. chan_for st v c k \<Longrightarrow> q \<in> set (chan_buf (chans (sv_world v) c)) \<Longrightarrow>
           q < fresh (sv_world v) \<and> proxy_key (sv_world v) q = Some k"
    and "\<And>c p k l. (c, p, k, l) \<in> set (sv_sending v) \<Longrightarrow>
           p < fresh (sv_world v) \<and> proxy_key (sv_world v) p = Some k"
  shows "paired st buffer v"
  unfolding paired_def
proof (intro conjI allI impI ballI)
  fix p assume "p \<in> set (chan_buf (chans (sv_world v) buffer) @ sv_dialing v)"
  then have "p \<in> set (chan_buf (chans (sv_world v) buffer)) \<or> p \<in> set (sv_dialing v)"
    by simp
  from assms(4) [OF this]
  show "p < fresh (sv_world v)" "proxy_process (proxies (sv_world v) p) = None"
    by simp_all
qed (use assms in blast)+

lemma paired_fresh:
  "paired st buffer v \<Longrightarrow> st < fresh (sv_world v) \<and> buffer < fresh (sv_world v)"
  by (simp add: paired_def)

lemma paired_distinct:
  "paired st buffer v \<Longrightarrow> distinct (chan_buf (chans (sv_world v) buffer) @ sv_dialing v)"
  by (simp add: paired_def)

lemma paired_unreg:
  "paired st buffer v \<Longrightarrow>
   p \<in> set (chan_buf (chans (sv_world v) buffer)) \<or> p \<in> set (sv_dialing v) \<Longrightarrow>
     p < fresh (sv_world v) \<and> proxy_process (proxies (sv_world v) p) = None"
  by (auto simp: paired_def)

lemma paired_unique:
  "paired st buffer v \<Longrightarrow> chan_for st v c k \<Longrightarrow> chan_for st v c k' \<Longrightarrow> k = k'"
  unfolding paired_def by blast

lemma paired_chan:
  "paired st buffer v \<Longrightarrow> chan_for st v c k \<Longrightarrow> c < fresh (sv_world v) \<and> c \<noteq> buffer"
  unfolding paired_def by blast

lemma paired_chan_buf:
  "paired st buffer v \<Longrightarrow> chan_for st v c k \<Longrightarrow> q \<in> set (chan_buf (chans (sv_world v) c)) \<Longrightarrow>
     q < fresh (sv_world v) \<and> proxy_key (sv_world v) q = Some k"
  unfolding paired_def by blast

lemma paired_sending:
  "paired st buffer v \<Longrightarrow> (c, p, k, l) \<in> set (sv_sending v) \<Longrightarrow>
     p < fresh (sv_world v) \<and> proxy_key (sv_world v) p = Some k"
  unfolding paired_def by blast

lemma proxy_key_cong:
  "proxy_process (proxies w' q) = proxy_process (proxies w q) \<Longrightarrow> proxy_key w' q = proxy_key w q"
  by (simp add: proxy_key_def)

lemma proxy_key_Some:
  "proxy_key w q = Some k \<Longrightarrow> proxy_process (proxies w q) \<noteq> None"
  by (cases "proxy_process (proxies w q)") (simp_all add: proxy_key_def)

lemma paired_step:
  assumes inv: "paired st buffer v"
    and fr: "fresh (sv_world v) \<le> fresh (sv_world v')"
    and cf: "\<And>c k. chan_for st v' c k \<Longrightarrow> chan_for st v c k"
    and bufs: "\<And>c k q. chan_for st v c k \<Longrightarrow> q \<in> set (chan_buf (chans (sv_world v') c)) \<Longrightarrow>
                 q \<in> set (chan_buf (chans (sv_world v) c))
                 \<or> (\<exists>c' l. (c', q, k, l) \<in> set (sv_sending v))"
    and procs: "\<And>q. held st buffer v q \<Longrightarrow>
                 q \<in> set (chan_buf (chans (sv_world v) buffer) @ sv_dialing v) \<longrightarrow>
                 q \<in> set (chan_buf (chans (sv_world v') buffer) @ sv_dialing v') \<Longrightarrow>
                 proxy_process (proxies (sv_world v') q) = proxy_process (proxies (sv_world v) q)"
    and unreg: "distinct (chan_buf (chans (sv_world v') buffer) @ sv_dialing v')"
    and unreg': "\<And>p. p \<in> set (chan_buf (chans (sv_world v') buffer) @ sv_dialing v') \<Longrightarrow>
                  p \<in> set (chan_buf (chans (sv_world v) buffer) @ sv_dialing v)
                  \<or> (p < fresh (sv_world v') \<and> proxy_process (proxies (sv_world v') p) = None)"
    and sending: "\<And>c p k l. (c, p, k, l) \<in> set (sv_sending v') \<Longrightarrow>
                    \<exists>l'. (c, p, k, l') \<in> set (sv_sending v)"
  shows "paired st buffer v'"
proof -
  have keyed: "q < fresh (sv_world v') \<and> proxy_key (sv_world v') q = Some k"
    if h: "held st buffer v q" and old: "q < fresh (sv_world v) \<and> proxy_key (sv_world v) q = Some k"
    for q k
  proof -
    have "proxy_process (proxies (sv_world v) q) \<noteq> None"
      using old proxy_key_Some by blast
    then have "q \<notin> set (chan_buf (chans (sv_world v) buffer) @ sv_dialing v)"
      using paired_unreg [OF inv, of q] by auto
    then have "proxy_process (proxies (sv_world v') q) = proxy_process (proxies (sv_world v) q)"
      using procs [OF h] by blast
    then show ?thesis
      using old fr proxy_key_cong [of "sv_world v'" q "sv_world v"] by simp
  qed
  show ?thesis
  proof (rule pairedI)
    show "st < fresh (sv_world v')" "buffer < fresh (sv_world v')"
      using paired_fresh [OF inv] fr by simp_all
    show "distinct (chan_buf (chans (sv_world v') buffer) @ sv_dialing v')"
      by (rule unreg)
  next
    fix p assume "p \<in> set (chan_buf (chans (sv_world v') buffer)) \<or> p \<in> set (sv_dialing v')"
    then have p: "p \<in> set (chan_buf (chans (sv_world v') buffer) @ sv_dialing v')"
      by simp
    show "p < fresh (sv_world v') \<and> proxy_process (proxies (sv_world v') p) = None"
    proof (cases "p \<in> set (chan_buf (chans (sv_world v) buffer) @ sv_dialing v)")
      case True
      then have "p \<in> set (chan_buf (chans (sv_world v) buffer)) \<or> p \<in> set (sv_dialing v)"
        by simp
      from paired_unreg [OF inv this]
      have old: "p < fresh (sv_world v)" "proxy_process (proxies (sv_world v) p) = None"
        by simp_all
      have "held st buffer v p"
        using True by (simp add: held_def)
      then have "proxy_process (proxies (sv_world v') p) = proxy_process (proxies (sv_world v) p)"
        using procs [of p] p by blast
      then show ?thesis
        using old fr by simp
    next
      case False
      then show ?thesis
        using unreg' [OF p] by simp
    qed
  next
    fix c k k' assume "chan_for st v' c k" "chan_for st v' c k'"
    then have "chan_for st v c k" "chan_for st v c k'" by (simp_all add: cf)
    then show "k = k'"
      by (rule paired_unique [OF inv])
  next
    fix c k assume "chan_for st v' c k"
    then have "chan_for st v c k" by (rule cf)
    from paired_chan [OF inv this] show "c < fresh (sv_world v') \<and> c \<noteq> buffer"
      using fr by simp
  next
    fix c k q assume c: "chan_for st v' c k" and q: "q \<in> set (chan_buf (chans (sv_world v') c))"
    have c': "chan_for st v c k" using c by (rule cf)
    from bufs [OF c' q] show "q < fresh (sv_world v') \<and> proxy_key (sv_world v') q = Some k"
    proof
      assume q': "q \<in> set (chan_buf (chans (sv_world v) c))"
      have "held st buffer v q"
        unfolding held_def using c' q' by blast
      then show ?thesis
        using paired_chan_buf [OF inv c' q'] by (rule keyed)
    next
      assume "\<exists>c' l. (c', q, k, l) \<in> set (sv_sending v)"
      then obtain c' l where s: "(c', q, k, l) \<in> set (sv_sending v)"
        by blast
      have "held st buffer v q"
        unfolding held_def using s by blast
      then show ?thesis
        using paired_sending [OF inv s] by (rule keyed)
    qed
  next
    fix c p k l assume "(c, p, k, l) \<in> set (sv_sending v')"
    then obtain l' where s: "(c, p, k, l') \<in> set (sv_sending v)"
      using sending by blast
    have "held st buffer v p"
      unfolding held_def using s by blast
    then show "p < fresh (sv_world v') \<and> proxy_key (sv_world v') p = Some k"
      using paired_sending [OF inv s] by (rule keyed)
  qed
qed

lemma paired_join:
  assumes inv: "paired st buffer v"
    and fr: "fresh (sv_world v') = Suc (fresh (sv_world v))"
    and chs: "chans (sv_world v') = (chans (sv_world v))(fresh (sv_world v) :=
                \<lparr> chan_cap = 1, chan_buf = [], chan_closed = False \<rparr>)"
    and store: "listening_backlog (states (sv_world v) st) k = Some ch
                  \<and> listening_backlog (states (sv_world v') st) = listening_backlog (states (sv_world v) st)
                \<or> listening_backlog (states (sv_world v) st) k = None \<and> ch = fresh (sv_world v)
                  \<and> listening_backlog (states (sv_world v') st)
                      = (listening_backlog (states (sv_world v) st))(k := Some (fresh (sv_world v)))"
    and procs: "\<And>q. proxy_process (proxies (sv_world v') q) = proxy_process (proxies (sv_world v) q)"
    and dialing: "sv_dialing v' = sv_dialing v"
    and sending: "\<And>c p k' l. (c, p, k', l) \<in> set (sv_sending v') \<Longrightarrow>
                    (c, p, k', l) \<in> set (sv_sending v)
                    \<or> (c = ch \<and> k' = k \<and> p < fresh (sv_world v) \<and> proxy_key (sv_world v) p = Some k)"
    and receiving: "\<And>s c k' r l. (s, c, k', r, l) \<in> set (sv_receiving v') \<Longrightarrow>
                    (s, c, k', r, l) \<in> set (sv_receiving v) \<or> (c = ch \<and> k' = k)"
  shows "paired st buffer v'"
proof -
  let ?w = "sv_world v" and ?w' = "sv_world v'"
  have key: "proxy_key ?w' q = proxy_key ?w q" for q
    by (rule proxy_key_cong) (rule procs)
  have cf: "chan_for st v c k' \<or> (c = ch \<and> k' = k)" if "chan_for st v' c k'" for c k'
    using that store sending receiving unfolding chan_for_def
    by (metis fun_upd_apply option.inject)
  have old_ch: "chan_for st v ch k \<or> ch = fresh ?w"
    using store by (auto simp: chan_for_def)
  have lt: "c < fresh ?w" if "chan_for st v c k'" for c k'
    using paired_chan [OF inv that] by simp
  have buffer: "buffer < fresh ?w" "st < fresh ?w"
    using paired_fresh [OF inv] by simp_all
  show ?thesis
  proof (rule pairedI)
    show "st < fresh ?w'" "buffer < fresh ?w'"
      using buffer fr by simp_all
    show "distinct (chan_buf (chans ?w' buffer) @ sv_dialing v')"
      using paired_distinct [OF inv] buffer by (simp add: chs dialing)
  next
    fix p assume "p \<in> set (chan_buf (chans ?w' buffer)) \<or> p \<in> set (sv_dialing v')"
    then have "p \<in> set (chan_buf (chans ?w buffer)) \<or> p \<in> set (sv_dialing v)"
      using buffer by (simp add: chs dialing)
    from paired_unreg [OF inv this]
    show "p < fresh ?w' \<and> proxy_process (proxies ?w' p) = None"
      by (simp add: fr procs)
  next
    fix c k1 k2 assume a: "chan_for st v' c k1" "chan_for st v' c k2"
    show "k1 = k2"
      using cf [OF a(1)] cf [OF a(2)] old_ch paired_unique [OF inv] lt
      by (metis less_irrefl)
  next
    fix c k' assume "chan_for st v' c k'"
    then show "c < fresh ?w' \<and> c \<noteq> buffer"
      using cf old_ch paired_chan [OF inv] buffer fr
      by (metis less_Suc_eq less_irrefl)
  next
    fix c k' q assume c: "chan_for st v' c k'" and q: "q \<in> set (chan_buf (chans ?w' c))"
    have ne: "c \<noteq> fresh ?w"
      using q by (auto simp: chs)
    then have q': "q \<in> set (chan_buf (chans ?w c))"
      using q by (simp add: chs)
    have "chan_for st v c k'"
      using cf [OF c] old_ch ne by blast
    from paired_chan_buf [OF inv this q']
    show "q < fresh ?w' \<and> proxy_key ?w' q = Some k'"
      by (simp add: fr key)
  next
    fix c p k' l assume "(c, p, k', l) \<in> set (sv_sending v')"
    then have "p < fresh ?w \<and> proxy_key ?w p = Some k'"
      using sending paired_sending [OF inv] by blast
    then show "p < fresh ?w' \<and> proxy_key ?w' p = Some k'"
      by (simp add: fr key)
  qed
qed

subsection \<open>What each step does to the heap\<close>

lemma AcceptLoop_push_facts:
  assumes "AcceptLoop_push buffer xc w = Some w'"
  shows "fresh w' = Suc (fresh w)"
    and "states w' = states w"
    and "proxy_process (proxies w' q) = (if q = fresh w then None else proxy_process (proxies w q))"
    and "chans w' = (chans w)(buffer := (chans w buffer)\<lparr> chan_buf := chan_buf (chans w buffer) @ [fresh w] \<rparr>)"
  using assms
  by (auto simp: AcceptLoop_push_def newProxy_def chan_send_def Let_def split: if_splits)

lemma DispatchLoop_take_facts:
  assumes "DispatchLoop_take buffer w = Some (p, w')"
  shows "\<exists>rest. chan_buf (chans w buffer) = p # rest
           \<and> w' = w\<lparr> chans := (chans w)(buffer := (chans w buffer)\<lparr> chan_buf := rest \<rparr>) \<rparr>"
  using assms by (auto simp: DispatchLoop_take_def split: list.splits)

lemma Dispatch_dial_failed:
  assumes "Dispatch_dial st p None w = (DialFailed, w')"
  shows "fresh w' = fresh w" and "states w' = states w" and "proxies w' = proxies w"
    and "chans w' = chans w"
  using assms by (auto simp: Dispatch_dial_def conn_Close_def split: option.splits)

lemma rendezvous:
  assumes "backlog_LoadOrStore st k (fst (makeChan 1 w)) (snd (makeChan 1 w)) = ((ch, l), w')"
  shows "fresh w' = Suc (fresh w)"
    and "chans w' = (chans w)(fresh w := \<lparr> chan_cap = 1, chan_buf = [], chan_closed = False \<rparr>)"
    and "proxies w' = proxies w"
    and "listening_backlog (states w st) k = Some ch
           \<and> listening_backlog (states w' st) = listening_backlog (states w st)
         \<or> listening_backlog (states w st) k = None \<and> ch = fresh w
           \<and> listening_backlog (states w' st) = (listening_backlog (states w st))(k := Some (fresh w))"
  using assms
  by (auto simp: backlog_LoadOrStore_def makeChan_def split: option.splits)

lemma Dispatch_dial_registered:
  assumes "Dispatch_dial st p (Some pc) w = (Registered ch k l, w')"
  shows "map_option unmapped (ParseAddrPort (TCPAddr_String (conn_local pc))) = Some k"
    and "backlog_LoadOrStore st k
           (fst (makeChan 1 (w\<lparr> proxies := (proxies w)(p := (proxies w p)\<lparr> proxy_process := Some pc \<rparr>) \<rparr>)))
           (snd (makeChan 1 (w\<lparr> proxies := (proxies w)(p := (proxies w p)\<lparr> proxy_process := Some pc \<rparr>) \<rparr>)))
         = ((ch, l), w')"
proof -
  obtain a where a: "ParseAddrPort (TCPAddr_String (conn_local pc)) = Some a"
    using assms by (cases "ParseAddrPort (TCPAddr_String (conn_local pc))")
      (simp_all add: Dispatch_dial_def)
  have k: "k = unmapped a"
    using assms a by (simp add: Dispatch_dial_def Let_def case_prod_beta)
  show "map_option unmapped (ParseAddrPort (TCPAddr_String (conn_local pc))) = Some k"
    by (simp add: a k)
  show "backlog_LoadOrStore st k
           (fst (makeChan 1 (w\<lparr> proxies := (proxies w)(p := (proxies w p)\<lparr> proxy_process := Some pc \<rparr>) \<rparr>)))
           (snd (makeChan 1 (w\<lparr> proxies := (proxies w)(p := (proxies w p)\<lparr> proxy_process := Some pc \<rparr>) \<rparr>)))
         = ((ch, l), w')"
    using assms a unfolding k
    by (simp add: Dispatch_dial_def Let_def case_prod_beta prod_eq_iff)
qed

lemma Accept_listening_receiving:
  assumes "Accept_listening cur e w = (Receiving st ch a r l, w')"
  shows "cur = st"
    and "\<exists>sa. ac_accept4 e = Inr (r, sa) \<and> a = unmapped (sockaddr_AddrPort sa)"
    and "backlog_LoadOrStore st a (fst (makeChan 1 w)) (snd (makeChan 1 w)) = ((ch, l), w')"
proof -
  obtain ret sa where acc: "ac_accept4 e = Inr (ret, sa)"
    using assms by (cases "ac_accept4 e")
      (auto simp: Accept_listening_def split: goerr.splits)
  have eq: "(Receiving cur
               (fst (fst (backlog_LoadOrStore cur (unmapped (sockaddr_AddrPort sa))
                      (fst (makeChan 1 w)) (snd (makeChan 1 w)))))
               (unmapped (sockaddr_AddrPort sa)) ret
               (snd (fst (backlog_LoadOrStore cur (unmapped (sockaddr_AddrPort sa))
                      (fst (makeChan 1 w)) (snd (makeChan 1 w))))),
             snd (backlog_LoadOrStore cur (unmapped (sockaddr_AddrPort sa))
                      (fst (makeChan 1 w)) (snd (makeChan 1 w))))
            = (Receiving st ch a r l, w')"
    using assms by (auto simp: Accept_listening_def acc Let_def case_prod_beta)
  then show "cur = st" by simp
  from eq have a: "a = unmapped (sockaddr_AddrPort sa)" and r: "r = ret" by simp_all
  show "\<exists>sa. ac_accept4 e = Inr (r, sa) \<and> a = unmapped (sockaddr_AddrPort sa)"
    using acc a r by blast
  show "backlog_LoadOrStore st a (fst (makeChan 1 w)) (snd (makeChan 1 w)) = ((ch, l), w')"
    using eq unfolding a by (clarsimp simp: prod_eq_iff)
qed

lemma Accept_begin_listening:
  assumes "Accept_begin s flags e w = (Receiving st ch a r l, w')"
  shows "\<exists>w1 cur. fresh w1 = fresh w \<and> states w1 = states w \<and> proxies w1 = proxies w
            \<and> chans w1 = chans w
            \<and> Accept_listening cur e w1 = (Receiving st ch a r l, w')"
proof -
  let ?f = "sock_FD (sockets w s)"
  obtain b w1 where inc: "IncRef ?f w = (b, w1)"
    by (cases "IncRef ?f w")
  have b: "b"
    using assms inc by (cases b) (simp_all add: Accept_begin_def)
  have w1: "fresh w1 = fresh w" "states w1 = states w" "proxies w1 = proxies w"
    "chans w1 = chans w"
    using inc by (auto simp: IncRef_def split: if_splits)
  let ?cur = "Load (sock_Inode (sockets w1 s)) w1"
  have rest: "(case state (states w1 ?cur) of
                   StatePassive \<Rightarrow> (NoChild (Return EINVAL), DecRef ?f w1)
                 | StateConnected \<Rightarrow> (NoChild (Return EINVAL), DecRef ?f w1)
                 | StateConnecting \<Rightarrow> (NoChild (Return EINVAL), DecRef ?f w1)
                 | StateClosed \<Rightarrow> (NoChild (Return EBADF), DecRef ?f w1)
                 | StateListening \<Rightarrow>
                     if \<not> listening_active (states w1 ?cur) then (NoChild (Return EINVAL), DecRef ?f w1)
                     else
                       (case Accept_listening ?cur e w1 of
                          (Receiving c ch a r l, w2) \<Rightarrow> (Receiving c ch a r l, w2)
                        | (r, w2) \<Rightarrow> (r, DecRef ?f w2))) = (Receiving st ch a r l, w')"
    using assms inc b by (simp add: Accept_begin_def Let_def)
  then have lis: "state (states w1 ?cur) = StateListening"
    by (cases "state (states w1 ?cur)") simp_all
  from rest lis have act: "listening_active (states w1 ?cur)"
    by (cases "listening_active (states w1 ?cur)") simp_all
  from rest lis act
  have "(case Accept_listening ?cur e w1 of
            (Receiving c ch a r l, w2) \<Rightarrow> (Receiving c ch a r l, w2)
          | (r, w2) \<Rightarrow> (r, DecRef ?f w2)) = (Receiving st ch a r l, w')"
    by simp
  then have "Accept_listening ?cur e w1 = (Receiving st ch a r l, w')"
    by (cases "Accept_listening ?cur e w1"; cases "fst (Accept_listening ?cur e w1)") auto
  then show ?thesis
    using w1 by blast
qed

lemma Accept_begin_receiving:
  assumes "Accept_begin s flags e w = (Receiving st ch a r l, w')"
  shows "\<exists>w1. fresh w1 = fresh w \<and> states w1 = states w \<and> proxies w1 = proxies w
            \<and> chans w1 = chans w
            \<and> backlog_LoadOrStore st a (fst (makeChan 1 w1)) (snd (makeChan 1 w1)) = ((ch, l), w')"
  using Accept_begin_listening [OF assms] Accept_listening_receiving(3) by blast

lemma Accept_begin_address:
  assumes "Accept_begin s flags e w = (Receiving st ch a r l, w')"
  shows "\<exists>sa. ac_accept4 e = Inr (r, sa) \<and> a = unmapped (sockaddr_AddrPort sa)"
  using Accept_begin_listening [OF assms] Accept_listening_receiving(2) by blast

lemma Accept_child_keeps:
  shows "fresh w \<le> fresh (snd (Accept_child s p ret e w))"
    and "chans (snd (Accept_child s p ret e w)) = chans w"
    and "proxy_process (proxies (snd (Accept_child s p ret e w)) q) = proxy_process (proxies w q)"
    and "x < fresh w \<Longrightarrow> states (snd (Accept_child s p ret e w)) x = states w x"
  by (auto simp: Accept_child_def NewFD_def allocState_def newInode_def NewSocket_def
      inode_add_def spawn_def DecRef_def unix_Close_def Let_def split: sum.splits)

lemma Accept_child_result:
  "fst (Accept_child s p ret e w) \<noteq> NoChild Panic"
  by (auto simp: Accept_child_def Let_def case_prod_beta split: sum.splits)

lemma Accept_child_proxy:
  assumes "Accept_child s p ret e w = (Child child, w')"
  shows "connected_proxy (states w' (Load (sock_Inode (sockets w' child)) w')) = Some p"
  using assms
  by (auto simp: Accept_child_def NewFD_def allocState_def newInode_def NewSocket_def
      inode_add_def spawn_def DecRef_def unix_Close_def Let_def Load_def newState_def
      split: sum.splits)

lemma Accept_end_facts:
  assumes "Accept_end s ch a r e w = Some (res, w')"
  shows "\<exists>p rest. chan_buf (chans w ch) = p # rest
           \<and> chans w' = (chans w)(ch := (chans w ch)\<lparr> chan_buf := rest \<rparr>)"
    and "fresh w \<le> fresh w'"
    and "proxy_process (proxies w' q) = proxy_process (proxies w q)"
    and "x < fresh w \<Longrightarrow> states w' x = states w x"
proof -
  obtain p rest where buf: "chan_buf (chans w ch) = p # rest"
    using assms by (cases "chan_buf (chans w ch)") (simp_all add: Accept_end_def)
  let ?w1 = "w\<lparr> chans := (chans w)(ch := (chans w ch)\<lparr> chan_buf := rest \<rparr>) \<rparr>"
  let ?f = "sock_FD (sockets w s)"
  have "w' = DecRef ?f ?w1 \<or> w' = DecRef ?f (snd (Accept_child s p r e ?w1))"
    using assms buf
    by (auto simp: Accept_end_def Let_def case_prod_beta split: option.splits if_splits)
  then have keeps: "chans w' = chans ?w1 \<and> fresh ?w1 \<le> fresh w'
      \<and> proxy_process (proxies w' q) = proxy_process (proxies ?w1 q)
      \<and> (x < fresh ?w1 \<longrightarrow> states w' x = states ?w1 x)"
    using Accept_child_keeps(1) [where w = ?w1 and s = s and p = p and ret = r and e = e]
    by (auto simp: DecRef_def Accept_child_keeps)
  show "\<exists>p rest. chan_buf (chans w ch) = p # rest
           \<and> chans w' = (chans w)(ch := (chans w ch)\<lparr> chan_buf := rest \<rparr>)"
    using buf keeps by simp
  show "fresh w \<le> fresh w'" using keeps by simp
  show "proxy_process (proxies w' q) = proxy_process (proxies w q)" using keeps by simp
  show "x < fresh w \<Longrightarrow> states w' x = states w x" using keeps by simp
qed

lemma backlog_Delete_facts:
  shows "fresh (backlog_Delete st k w) = fresh w"
    and "chans (backlog_Delete st k w) = chans w"
    and "proxies (backlog_Delete st k w) = proxies w"
    and "listening_backlog (states (backlog_Delete st k w) st)
           = (listening_backlog (states w st))(k := None)"
  by (simp_all add: backlog_Delete_def)

lemma chan_send_facts:
  assumes "chan_send ch p w = Some w'"
  shows "w' = w\<lparr> chans := (chans w)(ch := (chans w ch)\<lparr> chan_buf := chan_buf (chans w ch) @ [p] \<rparr>) \<rparr>"
  using assms by (auto simp: chan_send_def split: if_splits)

subsection \<open>Every step keeps the pairing\<close>

lemma in_remove1:
  "x \<in> set (remove1 y xs) \<Longrightarrow> x \<in> set xs"
  by (meson notin_set_remove1)

lemma held_less:
  assumes inv: "paired st buffer v" and h: "held st buffer v q"
  shows "q < fresh (sv_world v)"
  using h paired_unreg [OF inv, of q] paired_sending [OF inv] paired_chan_buf [OF inv]
  unfolding held_def by auto

lemma paired_external:
  assumes inv: "paired st buffer v"
    and step: "AcceptLoop_push buffer xc (sv_world v) = Some w'"
  shows "paired st buffer (v\<lparr> sv_world := w' \<rparr>)"
proof (rule paired_step [OF inv])
  note f = AcceptLoop_push_facts [OF step]
  have old: "p < fresh (sv_world v)"
    if "p \<in> set (chan_buf (chans (sv_world v) buffer) @ sv_dialing v)" for p
    using paired_unreg [OF inv, of p] that by auto
  show "fresh (sv_world v) \<le> fresh (sv_world (v\<lparr> sv_world := w' \<rparr>))"
    by (simp add: f(1))
  show "chan_for st v c k" if "chan_for st (v\<lparr> sv_world := w' \<rparr>) c k" for c k
    using that by (simp add: chan_for_def f(2))
  show "q \<in> set (chan_buf (chans (sv_world v) c)) \<or> (\<exists>c' l. (c', q, k, l) \<in> set (sv_sending v))"
    if "chan_for st v c k" "q \<in> set (chan_buf (chans (sv_world (v\<lparr> sv_world := w' \<rparr>)) c))"
    for c k q
    using that paired_chan [OF inv that(1)] by (simp add: f(4))
  show "proxy_process (proxies (sv_world (v\<lparr> sv_world := w' \<rparr>)) q)
          = proxy_process (proxies (sv_world v) q)"
    if "held st buffer v q" for q
    using held_less [OF inv that] by (simp add: f(3))
  show "distinct (chan_buf (chans (sv_world (v\<lparr> sv_world := w' \<rparr>)) buffer)
          @ sv_dialing (v\<lparr> sv_world := w' \<rparr>))"
    using paired_distinct [OF inv] old [of "fresh (sv_world v)"] by (auto simp: f(4))
  show "p \<in> set (chan_buf (chans (sv_world v) buffer) @ sv_dialing v)
          \<or> (p < fresh (sv_world (v\<lparr> sv_world := w' \<rparr>))
             \<and> proxy_process (proxies (sv_world (v\<lparr> sv_world := w' \<rparr>)) p) = None)"
    if "p \<in> set (chan_buf (chans (sv_world (v\<lparr> sv_world := w' \<rparr>)) buffer)
          @ sv_dialing (v\<lparr> sv_world := w' \<rparr>))" for p
    using that by (auto simp: f(1) f(3) f(4))
  show "\<exists>l'. (c, p, k, l') \<in> set (sv_sending v)"
    if "(c, p, k, l) \<in> set (sv_sending (v\<lparr> sv_world := w' \<rparr>))" for c p k l
    using that by auto
qed

lemma paired_exited:
  assumes inv: "paired st buffer v"
  shows "paired st buffer (v\<lparr> sv_world := AcceptLoop_exit lis st buffer (sv_world v) \<rparr>)"
proof -
  let ?v' = "v\<lparr> sv_world := AcceptLoop_exit lis st buffer (sv_world v) \<rparr>"
  have f: "fresh (AcceptLoop_exit lis st buffer (sv_world v)) = fresh (sv_world v)"
    "proxies (AcceptLoop_exit lis st buffer (sv_world v)) = proxies (sv_world v)"
    "listening_backlog (states (AcceptLoop_exit lis st buffer (sv_world v)) st)
       = listening_backlog (states (sv_world v) st)"
    "chan_buf (chans (AcceptLoop_exit lis st buffer (sv_world v)) c)
       = chan_buf (chans (sv_world v) c)" for c
    by (simp_all add: AcceptLoop_exit_def lis_Close_def)
  show ?thesis
  proof (rule paired_step [OF inv])
    show "fresh (sv_world v) \<le> fresh (sv_world ?v')"
      by (simp add: f)
    show "chan_for st v c k" if "chan_for st ?v' c k" for c k
      using that by (simp add: chan_for_def f)
    show "q \<in> set (chan_buf (chans (sv_world v) c)) \<or> (\<exists>c' l. (c', q, k, l) \<in> set (sv_sending v))"
      if "chan_for st v c k" "q \<in> set (chan_buf (chans (sv_world ?v') c))" for c k q
      using that(2) by (simp add: f)
    show "proxy_process (proxies (sv_world ?v') q) = proxy_process (proxies (sv_world v) q)" for q
      by (simp add: f)
    show "distinct (chan_buf (chans (sv_world ?v') buffer) @ sv_dialing ?v')"
      using paired_distinct [OF inv] by (simp add: f)
    show "q \<in> set (chan_buf (chans (sv_world v) buffer) @ sv_dialing v)
            \<or> (q < fresh (sv_world ?v') \<and> proxy_process (proxies (sv_world ?v') q) = None)"
      if "q \<in> set (chan_buf (chans (sv_world ?v') buffer) @ sv_dialing ?v')" for q
      using that by (simp add: f)
    show "\<exists>l'. (c, q, k, l') \<in> set (sv_sending v)"
      if "(c, q, k, l) \<in> set (sv_sending ?v')" for c q k l
      using that by auto
  qed
qed

lemma paired_take:
  assumes inv: "paired st buffer v"
    and step: "DispatchLoop_take buffer (sv_world v) = Some (p, w')"
  shows "paired st buffer (v\<lparr> sv_world := w', sv_dialing := p # sv_dialing v \<rparr>)"
proof -
  obtain rest where buf: "chan_buf (chans (sv_world v) buffer) = p # rest"
    and w': "w' = (sv_world v)\<lparr> chans := (chans (sv_world v))
                 (buffer := (chans (sv_world v) buffer)\<lparr> chan_buf := rest \<rparr>) \<rparr>"
    using DispatchLoop_take_facts [OF step] by blast
  let ?v' = "v\<lparr> sv_world := w', sv_dialing := p # sv_dialing v \<rparr>"
  show ?thesis
  proof (rule paired_step [OF inv])
    show "fresh (sv_world v) \<le> fresh (sv_world ?v')"
      by (simp add: w')
    show "chan_for st v c k" if "chan_for st ?v' c k" for c k
      using that by (simp add: chan_for_def w')
    show "q \<in> set (chan_buf (chans (sv_world v) c)) \<or> (\<exists>c' l. (c', q, k, l) \<in> set (sv_sending v))"
      if "chan_for st v c k" "q \<in> set (chan_buf (chans (sv_world ?v') c))" for c k q
      using that paired_chan [OF inv that(1)] by (simp add: w')
    show "proxy_process (proxies (sv_world ?v') q) = proxy_process (proxies (sv_world v) q)" for q
      by (simp add: w')
    show "distinct (chan_buf (chans (sv_world ?v') buffer) @ sv_dialing ?v')"
      using paired_distinct [OF inv] by (auto simp: w' buf)
    show "q \<in> set (chan_buf (chans (sv_world v) buffer) @ sv_dialing v)
            \<or> (q < fresh (sv_world ?v') \<and> proxy_process (proxies (sv_world ?v') q) = None)"
      if "q \<in> set (chan_buf (chans (sv_world ?v') buffer) @ sv_dialing ?v')" for q
      using that by (auto simp: w' buf)
    show "\<exists>l'. (c, q, k, l') \<in> set (sv_sending v)"
      if "(c, q, k, l) \<in> set (sv_sending ?v')" for c q k l
      using that by auto
  qed
qed

lemma paired_dial_failed:
  assumes inv: "paired st buffer v"
    and step: "Dispatch_dial st p None (sv_world v) = (DialFailed, w')"
  shows "paired st buffer (v\<lparr> sv_world := w', sv_dialing := remove1 p (sv_dialing v) \<rparr>)"
proof -
  note f = Dispatch_dial_failed [OF step]
  let ?v' = "v\<lparr> sv_world := w', sv_dialing := remove1 p (sv_dialing v) \<rparr>"
  show ?thesis
  proof (rule paired_step [OF inv])
    show "fresh (sv_world v) \<le> fresh (sv_world ?v')"
      by (simp add: f)
    show "chan_for st v c k" if "chan_for st ?v' c k" for c k
      using that by (simp add: chan_for_def f)
    show "q \<in> set (chan_buf (chans (sv_world v) c)) \<or> (\<exists>c' l. (c', q, k, l) \<in> set (sv_sending v))"
      if "chan_for st v c k" "q \<in> set (chan_buf (chans (sv_world ?v') c))" for c k q
      using that by (simp add: f)
    show "proxy_process (proxies (sv_world ?v') q) = proxy_process (proxies (sv_world v) q)" for q
      by (simp add: f)
    show "distinct (chan_buf (chans (sv_world ?v') buffer) @ sv_dialing ?v')"
      using paired_distinct [OF inv] by (auto simp: f dest: in_remove1)
    show "q \<in> set (chan_buf (chans (sv_world v) buffer) @ sv_dialing v)
            \<or> (q < fresh (sv_world ?v') \<and> proxy_process (proxies (sv_world ?v') q) = None)"
      if "q \<in> set (chan_buf (chans (sv_world ?v') buffer) @ sv_dialing ?v')" for q
      using that by (auto simp: f dest: in_remove1)
    show "\<exists>l'. (c, q, k, l') \<in> set (sv_sending v)"
      if "(c, q, k, l) \<in> set (sv_sending ?v')" for c q k l
      using that by auto
  qed
qed

lemma paired_sender_delete:
  assumes inv: "paired st buffer v"
    and entry: "(ch, p, k, True) \<in> set (sv_sending v)"
  shows "paired st buffer
           (v\<lparr> sv_world := backlog_Delete st k (sv_world v),
               sv_sending := (ch, p, k, False) # remove1 (ch, p, k, True) (sv_sending v) \<rparr>)"
proof -
  note f = backlog_Delete_facts [of st k "sv_world v"]
  let ?v' = "v\<lparr> sv_world := backlog_Delete st k (sv_world v),
               sv_sending := (ch, p, k, False) # remove1 (ch, p, k, True) (sv_sending v) \<rparr>"
  have sub: "\<exists>l'. (c, q, k', l') \<in> set (sv_sending v)"
    if "(c, q, k', l) \<in> set (sv_sending ?v')" for c q k' l
    using that entry by (auto dest: in_remove1)
  show ?thesis
  proof (rule paired_step [OF inv])
    show "fresh (sv_world v) \<le> fresh (sv_world ?v')"
      by (simp add: f)
    show "chan_for st v c k'" if "chan_for st ?v' c k'" for c k'
    proof -
      from that consider "listening_backlog (states (sv_world v) st) k' = Some c"
        | q l where "(c, q, k', l) \<in> set (sv_sending ?v')"
        | s r l where "(s, c, k', r, l) \<in> set (sv_receiving v)"
        unfolding chan_for_def by (auto simp: f split: if_splits)
      then show ?thesis
      proof cases
        case 1 then show ?thesis by (simp add: chan_for_def)
      next
        case 2 then show ?thesis using sub unfolding chan_for_def by blast
      next
        case 3 then show ?thesis unfolding chan_for_def by blast
      qed
    qed
    show "q \<in> set (chan_buf (chans (sv_world v) c)) \<or> (\<exists>c' l. (c', q, k', l) \<in> set (sv_sending v))"
      if "chan_for st v c k'" "q \<in> set (chan_buf (chans (sv_world ?v') c))" for c k' q
      using that by (simp add: f)
    show "proxy_process (proxies (sv_world ?v') q) = proxy_process (proxies (sv_world v) q)" for q
      by (simp add: f)
    show "distinct (chan_buf (chans (sv_world ?v') buffer) @ sv_dialing ?v')"
      using paired_distinct [OF inv] by (simp add: f)
    show "q \<in> set (chan_buf (chans (sv_world v) buffer) @ sv_dialing v)
            \<or> (q < fresh (sv_world ?v') \<and> proxy_process (proxies (sv_world ?v') q) = None)"
      if "q \<in> set (chan_buf (chans (sv_world ?v') buffer) @ sv_dialing ?v')" for q
      using that by (simp add: f)
    show "\<exists>l'. (c, q, k', l') \<in> set (sv_sending v)"
      if "(c, q, k', l) \<in> set (sv_sending ?v')" for c q k' l
      using that by (rule sub)
  qed
qed

lemma paired_receiver_delete:
  assumes inv: "paired st buffer v"
    and entry: "(s, ch, a, r, True, e) \<in> set (sv_receiving v)"
  shows "paired st buffer
           (v\<lparr> sv_world := backlog_Delete st a (sv_world v),
               sv_receiving := (s, ch, a, r, False, e) # remove1 (s, ch, a, r, True, e) (sv_receiving v) \<rparr>)"
proof -
  note f = backlog_Delete_facts [of st a "sv_world v"]
  let ?v' = "v\<lparr> sv_world := backlog_Delete st a (sv_world v),
               sv_receiving := (s, ch, a, r, False, e) # remove1 (s, ch, a, r, True, e) (sv_receiving v) \<rparr>"
  show ?thesis
  proof (rule paired_step [OF inv])
    show "fresh (sv_world v) \<le> fresh (sv_world ?v')"
      by (simp add: f)
    show "chan_for st v c k'" if "chan_for st ?v' c k'" for c k'
      using that entry unfolding chan_for_def
      by (auto simp: f split: if_splits dest: in_remove1)
    show "q \<in> set (chan_buf (chans (sv_world v) c)) \<or> (\<exists>c' l. (c', q, k', l) \<in> set (sv_sending v))"
      if "chan_for st v c k'" "q \<in> set (chan_buf (chans (sv_world ?v') c))" for c k' q
      using that by (simp add: f)
    show "proxy_process (proxies (sv_world ?v') q) = proxy_process (proxies (sv_world v) q)" for q
      by (simp add: f)
    show "distinct (chan_buf (chans (sv_world ?v') buffer) @ sv_dialing ?v')"
      using paired_distinct [OF inv] by (simp add: f)
    show "q \<in> set (chan_buf (chans (sv_world v) buffer) @ sv_dialing v)
            \<or> (q < fresh (sv_world ?v') \<and> proxy_process (proxies (sv_world ?v') q) = None)"
      if "q \<in> set (chan_buf (chans (sv_world ?v') buffer) @ sv_dialing ?v')" for q
      using that by (simp add: f)
    show "\<exists>l'. (c, q, k', l') \<in> set (sv_sending v)"
      if "(c, q, k', l) \<in> set (sv_sending ?v')" for c q k' l
      using that by auto
  qed
qed

lemma paired_sent:
  assumes inv: "paired st buffer v"
    and entry: "(ch, p, k, False) \<in> set (sv_sending v)"
    and step: "chan_send ch p (sv_world v) = Some w'"
  shows "paired st buffer
           (v\<lparr> sv_world := w', sv_sending := remove1 (ch, p, k, False) (sv_sending v) \<rparr>)"
proof -
  note w' = chan_send_facts [OF step]
  let ?v' = "v\<lparr> sv_world := w', sv_sending := remove1 (ch, p, k, False) (sv_sending v) \<rparr>"
  have ch: "chan_for st v ch k"
    unfolding chan_for_def using entry by blast
  have ne: "ch \<noteq> buffer"
    using paired_chan [OF inv ch] by simp
  show ?thesis
  proof (rule paired_step [OF inv])
    show "fresh (sv_world v) \<le> fresh (sv_world ?v')"
      by (simp add: w')
    show "chan_for st v c k'" if "chan_for st ?v' c k'" for c k'
      using that unfolding chan_for_def by (auto simp: w' dest: in_remove1)
    show "q \<in> set (chan_buf (chans (sv_world v) c)) \<or> (\<exists>c' l. (c', q, k', l) \<in> set (sv_sending v))"
      if c: "chan_for st v c k'" and q: "q \<in> set (chan_buf (chans (sv_world ?v') c))" for c k' q
    proof (cases "c = ch \<and> q = p")
      case True
      then have "k' = k"
        using paired_unique [OF inv c] ch by blast
      then show ?thesis
        using True entry by blast
    next
      case False
      then show ?thesis
        using q by (auto simp: w' split: if_splits)
    qed
    show "proxy_process (proxies (sv_world ?v') q) = proxy_process (proxies (sv_world v) q)" for q
      by (simp add: w')
    show "distinct (chan_buf (chans (sv_world ?v') buffer) @ sv_dialing ?v')"
      using paired_distinct [OF inv] ne by (simp add: w')
    show "q \<in> set (chan_buf (chans (sv_world v) buffer) @ sv_dialing v)
            \<or> (q < fresh (sv_world ?v') \<and> proxy_process (proxies (sv_world ?v') q) = None)"
      if "q \<in> set (chan_buf (chans (sv_world ?v') buffer) @ sv_dialing ?v')" for q
      using that ne by (simp add: w')
    show "\<exists>l'. (c, q, k', l') \<in> set (sv_sending v)"
      if "(c, q, k', l) \<in> set (sv_sending ?v')" for c q k' l
      using that by (auto dest: in_remove1)
  qed
qed

lemma paired_received:
  assumes inv: "paired st buffer v"
    and entry: "(s, ch, a, r, False, e) \<in> set (sv_receiving v)"
    and step: "Accept_end s ch a r e (sv_world v) = Some (res, w')"
  shows "paired st buffer
           (v\<lparr> sv_world := w', sv_receiving := remove1 (s, ch, a, r, False, e) (sv_receiving v) \<rparr>)"
proof -
  note f = Accept_end_facts [OF step]
  obtain p rest where buf: "chan_buf (chans (sv_world v) ch) = p # rest"
    and chs: "chans w' = (chans (sv_world v))
                (ch := (chans (sv_world v) ch)\<lparr> chan_buf := rest \<rparr>)"
    using f(1) by blast
  let ?v' = "v\<lparr> sv_world := w', sv_receiving := remove1 (s, ch, a, r, False, e) (sv_receiving v) \<rparr>"
  have ch: "chan_for st v ch a"
    unfolding chan_for_def using entry by blast
  have ne: "ch \<noteq> buffer"
    using paired_chan [OF inv ch] by simp
  have st: "states w' st = states (sv_world v) st"
    using f(4) [of st] paired_fresh [OF inv] by simp
  show ?thesis
  proof (rule paired_step [OF inv])
    show "fresh (sv_world v) \<le> fresh (sv_world ?v')"
      by (simp add: f(2))
    show "chan_for st v c k'" if "chan_for st ?v' c k'" for c k'
      using that unfolding chan_for_def by (auto simp: st dest: in_remove1)
    show "q \<in> set (chan_buf (chans (sv_world v) c)) \<or> (\<exists>c' l. (c', q, k', l) \<in> set (sv_sending v))"
      if "chan_for st v c k'" "q \<in> set (chan_buf (chans (sv_world ?v') c))" for c k' q
      using that(2) buf by (auto simp: chs split: if_splits)
    show "proxy_process (proxies (sv_world ?v') q) = proxy_process (proxies (sv_world v) q)" for q
      by (simp add: f(3))
    show "distinct (chan_buf (chans (sv_world ?v') buffer) @ sv_dialing ?v')"
      using paired_distinct [OF inv] ne by (simp add: chs)
    show "q \<in> set (chan_buf (chans (sv_world v) buffer) @ sv_dialing v)
            \<or> (q < fresh (sv_world ?v') \<and> proxy_process (proxies (sv_world ?v') q) = None)"
      if "q \<in> set (chan_buf (chans (sv_world ?v') buffer) @ sv_dialing ?v')" for q
      using that ne by (simp add: chs)
    show "\<exists>l'. (c, q, k', l') \<in> set (sv_sending v)"
      if "(c, q, k', l) \<in> set (sv_sending ?v')" for c q k' l
      using that by auto
  qed
qed

lemma paired_others:
  assumes inv: "paired st buffer v"
    and step: "apart st buffer v w'"
  shows "paired st buffer (v\<lparr> sv_world := w' \<rparr>)"
proof -
  let ?v' = "v\<lparr> sv_world := w' \<rparr>"
  have fr: "fresh (sv_world v) \<le> fresh w'"
    and bl: "listening_backlog (states w' st) = listening_backlog (states (sv_world v) st)"
    and bf: "chans w' buffer = chans (sv_world v) buffer"
    and ch: "\<And>c k. chan_for st v c k \<Longrightarrow> chans w' c = chans (sv_world v) c"
    and pr: "\<And>p. held st buffer v p \<Longrightarrow>
               proxy_process (proxies w' p) = proxy_process (proxies (sv_world v) p)"
    using step unfolding apart_def by blast+
  show ?thesis
  proof (rule paired_step [OF inv])
    show "fresh (sv_world v) \<le> fresh (sv_world ?v')"
      by (simp add: fr)
    show "chan_for st v c k'" if "chan_for st ?v' c k'" for c k'
      using that by (simp add: chan_for_def bl)
    show "q \<in> set (chan_buf (chans (sv_world v) c)) \<or> (\<exists>c' l. (c', q, k', l) \<in> set (sv_sending v))"
      if "chan_for st v c k'" "q \<in> set (chan_buf (chans (sv_world ?v') c))" for c k' q
      using that(2) ch [OF that(1)] by simp
    show "proxy_process (proxies (sv_world ?v') q) = proxy_process (proxies (sv_world v) q)"
      if "held st buffer v q" for q
      using pr [OF that] by simp
    show "distinct (chan_buf (chans (sv_world ?v') buffer) @ sv_dialing ?v')"
      using paired_distinct [OF inv] by (simp add: bf)
    show "q \<in> set (chan_buf (chans (sv_world v) buffer) @ sv_dialing v)
            \<or> (q < fresh (sv_world ?v') \<and> proxy_process (proxies (sv_world ?v') q) = None)"
      if "q \<in> set (chan_buf (chans (sv_world ?v') buffer) @ sv_dialing ?v')" for q
      using that by (simp add: bf)
    show "\<exists>l'. (c, q, k', l') \<in> set (sv_sending v)"
      if "(c, q, k', l) \<in> set (sv_sending ?v')" for c q k' l
      using that by auto
  qed
qed

lemma paired_dialed:
  assumes inv: "paired st buffer v"
    and p: "p \<in> set (sv_dialing v)"
  shows "paired st buffer
           (v\<lparr> sv_world := (sv_world v)\<lparr> proxies := (proxies (sv_world v))
                   (p := (proxies (sv_world v) p)\<lparr> proxy_process := Some pc \<rparr>) \<rparr>,
               sv_dialing := remove1 p (sv_dialing v) \<rparr>)"
proof -
  let ?v' = "v\<lparr> sv_world := (sv_world v)\<lparr> proxies := (proxies (sv_world v))
                   (p := (proxies (sv_world v) p)\<lparr> proxy_process := Some pc \<rparr>) \<rparr>,
               sv_dialing := remove1 p (sv_dialing v) \<rparr>"
  have d: "distinct (chan_buf (chans (sv_world v) buffer) @ sv_dialing v)"
    by (rule paired_distinct [OF inv])
  have gone: "p \<notin> set (chan_buf (chans (sv_world ?v') buffer) @ sv_dialing ?v')"
    using d p by auto
  show ?thesis
  proof (rule paired_step [OF inv])
    show "fresh (sv_world v) \<le> fresh (sv_world ?v')"
      by simp
    show "chan_for st v c k'" if "chan_for st ?v' c k'" for c k'
      using that by (simp add: chan_for_def)
    show "q \<in> set (chan_buf (chans (sv_world v) c)) \<or> (\<exists>c' l. (c', q, k', l) \<in> set (sv_sending v))"
      if "chan_for st v c k'" "q \<in> set (chan_buf (chans (sv_world ?v') c))" for c k' q
      using that(2) by simp
    show "proxy_process (proxies (sv_world ?v') q) = proxy_process (proxies (sv_world v) q)"
      if "q \<in> set (chan_buf (chans (sv_world v) buffer) @ sv_dialing v) \<longrightarrow>
          q \<in> set (chan_buf (chans (sv_world ?v') buffer) @ sv_dialing ?v')" for q
    proof -
      have "q \<noteq> p"
        using that gone p by auto
      then show ?thesis by simp
    qed
    show "distinct (chan_buf (chans (sv_world ?v') buffer) @ sv_dialing ?v')"
      using d by (auto dest: in_remove1)
    show "q \<in> set (chan_buf (chans (sv_world v) buffer) @ sv_dialing v)
            \<or> (q < fresh (sv_world ?v') \<and> proxy_process (proxies (sv_world ?v') q) = None)"
      if "q \<in> set (chan_buf (chans (sv_world ?v') buffer) @ sv_dialing ?v')" for q
      using that by (auto dest: in_remove1)
    show "\<exists>l'. (c, q, k', l') \<in> set (sv_sending v)"
      if "(c, q, k', l) \<in> set (sv_sending ?v')" for c q k' l
      using that by auto
  qed
qed

lemma paired_registered:
  assumes inv: "paired st buffer v"
    and p: "p \<in> set (sv_dialing v)"
    and step: "Dispatch_dial st p (Some pc) (sv_world v) = (Registered ch k l, w')"
  shows "paired st buffer
           (v\<lparr> sv_world := w', sv_dialing := remove1 p (sv_dialing v),
               sv_sending := (ch, p, k, l) # sv_sending v \<rparr>)"
proof -
  let ?w1 = "(sv_world v)\<lparr> proxies := (proxies (sv_world v))
                   (p := (proxies (sv_world v) p)\<lparr> proxy_process := Some pc \<rparr>) \<rparr>"
  let ?v1 = "v\<lparr> sv_world := ?w1, sv_dialing := remove1 p (sv_dialing v) \<rparr>"
  let ?v' = "v\<lparr> sv_world := w', sv_dialing := remove1 p (sv_dialing v),
               sv_sending := (ch, p, k, l) # sv_sending v \<rparr>"
  note key = Dispatch_dial_registered(1) [OF step]
  note f = rendezvous [OF Dispatch_dial_registered(2) [OF step]]
  have inv1: "paired st buffer ?v1"
    by (rule paired_dialed [OF inv p])
  have less: "p < fresh (sv_world v)"
    using paired_unreg [OF inv, of p] p by simp
  have keyed: "proxy_key ?w1 p = Some k"
    using key by (simp add: proxy_key_def)
  show ?thesis
  proof (rule paired_join [OF inv1, where k = k and ch = ch])
    show "fresh (sv_world ?v') = Suc (fresh (sv_world ?v1))"
      using f(1) by simp
    show "chans (sv_world ?v') = (chans (sv_world ?v1))(fresh (sv_world ?v1) :=
                \<lparr> chan_cap = 1, chan_buf = [], chan_closed = False \<rparr>)"
      using f(2) by simp
    show "listening_backlog (states (sv_world ?v1) st) k = Some ch
            \<and> listening_backlog (states (sv_world ?v') st) = listening_backlog (states (sv_world ?v1) st)
          \<or> listening_backlog (states (sv_world ?v1) st) k = None \<and> ch = fresh (sv_world ?v1)
            \<and> listening_backlog (states (sv_world ?v') st)
                = (listening_backlog (states (sv_world ?v1) st))(k := Some (fresh (sv_world ?v1)))"
      using f(4) by simp
    show "proxy_process (proxies (sv_world ?v') q) = proxy_process (proxies (sv_world ?v1) q)" for q
      using f(3) by simp
    show "sv_dialing ?v' = sv_dialing ?v1"
      by simp
    show "(c, q, k', l') \<in> set (sv_sending ?v1)
            \<or> (c = ch \<and> k' = k \<and> q < fresh (sv_world ?v1) \<and> proxy_key (sv_world ?v1) q = Some k)"
      if "(c, q, k', l') \<in> set (sv_sending ?v')" for c q k' l'
      using that less keyed by auto
    show "(s, c, k', r, l') \<in> set (sv_receiving ?v1) \<or> (c = ch \<and> k' = k)"
      if "(s, c, k', r, l') \<in> set (sv_receiving ?v')" for s c k' r l'
      using that by simp
  qed
qed

lemma paired_accepting:
  assumes inv: "paired st buffer v"
    and step: "Accept_begin s flags e (sv_world v) = (Receiving st ch a r l, w')"
  shows "paired st buffer (v\<lparr> sv_world := w', sv_receiving := (s, ch, a, r, l, e) # sv_receiving v \<rparr>)"
proof -
  let ?v' = "v\<lparr> sv_world := w', sv_receiving := (s, ch, a, r, l, e) # sv_receiving v \<rparr>"
  obtain w1 where w1: "fresh w1 = fresh (sv_world v)" "states w1 = states (sv_world v)"
      "proxies w1 = proxies (sv_world v)" "chans w1 = chans (sv_world v)"
    and store: "backlog_LoadOrStore st a (fst (makeChan 1 w1)) (snd (makeChan 1 w1)) = ((ch, l), w')"
    using Accept_begin_receiving [OF step] by blast
  note f = rendezvous [OF store]
  show ?thesis
  proof (rule paired_join [OF inv, where k = a and ch = ch])
    show "fresh (sv_world ?v') = Suc (fresh (sv_world v))"
      using f(1) by (simp add: w1)
    show "chans (sv_world ?v') = (chans (sv_world v))(fresh (sv_world v) :=
                \<lparr> chan_cap = 1, chan_buf = [], chan_closed = False \<rparr>)"
      using f(2) by (simp add: w1)
    show "listening_backlog (states (sv_world v) st) a = Some ch
            \<and> listening_backlog (states (sv_world ?v') st) = listening_backlog (states (sv_world v) st)
          \<or> listening_backlog (states (sv_world v) st) a = None \<and> ch = fresh (sv_world v)
            \<and> listening_backlog (states (sv_world ?v') st)
                = (listening_backlog (states (sv_world v) st))(a := Some (fresh (sv_world v)))"
      using f(4) by (simp add: w1)
    show "proxy_process (proxies (sv_world ?v') q) = proxy_process (proxies (sv_world v) q)" for q
      using f(3) by (simp add: w1)
    show "sv_dialing ?v' = sv_dialing v"
      by simp
    show "(c, q, k', l') \<in> set (sv_sending v)
            \<or> (c = ch \<and> k' = a \<and> q < fresh (sv_world v) \<and> proxy_key (sv_world v) q = Some a)"
      if "(c, q, k', l') \<in> set (sv_sending ?v')" for c q k' l'
      using that by simp
    show "(s', c, k', r', l') \<in> set (sv_receiving v) \<or> (c = ch \<and> k' = a)"
      if "(s', c, k', r', l') \<in> set (sv_receiving ?v')" for s' c k' r' l'
      using that by auto
  qed
qed

lemma serve_paired:
  assumes "serve st buffer v v'" and "paired st buffer v"
  shows "paired st buffer v'"
  using assms
proof cases
  case (external xc w')
  then show ?thesis using assms(2) paired_external by simp
next
  case (exited lis)
  then show ?thesis using assms(2) paired_exited by simp
next
  case (take p w')
  then show ?thesis using assms(2) paired_take by simp
next
  case (dial_failed p w')
  then show ?thesis using assms(2) paired_dial_failed by simp
next
  case (registered p pc ch k l w')
  then show ?thesis using assms(2) paired_registered by simp
next
  case (sender_delete ch p k)
  then show ?thesis using assms(2) paired_sender_delete by simp
next
  case (sent ch p k w')
  then show ?thesis using assms(2) paired_sent by simp
next
  case (accepting s flags e ch a r l w')
  then show ?thesis using assms(2) paired_accepting by simp
next
  case (receiver_delete s ch a r e)
  then show ?thesis using assms(2) paired_receiver_delete by simp
next
  case (received s ch a r e res w')
  then show ?thesis using assms(2) paired_received by simp
next
  case (others w')
  then show ?thesis using assms(2) paired_others by simp
qed

subsection \<open>From Listen on\<close>

text \<open>
  The servings a \<open>Listen\<close> leads to: the one it leaves when it has won its
  compare-and-swap and started its loops (the threads that run between its load and its
  swap cannot reach the state it has just allocated), and every serving one step further.
\<close>

inductive served :: "nat \<Rightarrow> nat \<Rightarrow> serving \<Rightarrow> bool" for st buffer where
  listening:
    "Listen_begin s backlog i prev e w = (Inr t, w1) \<Longrightarrow>
     fresh w1 \<le> fresh (ln_interfere e w1) \<Longrightarrow>
     listening_backlog (states (ln_interfere e w1) (lt_next t))
       = listening_backlog (states w1 (lt_next t)) \<Longrightarrow>
     Listen_commit t (ln_interfere e w1) = (Return 0, w2) \<Longrightarrow>
     hd (tasks w2) = DispatchLoop buffer (lt_ephemeral t) st \<Longrightarrow>
       served st buffer \<lparr> sv_world = w2, sv_dialing = [], sv_sending = [], sv_receiving = [] \<rparr>"
| step:
    "served st buffer v \<Longrightarrow> serve st buffer v v' \<Longrightarrow> served st buffer v'"

lemma Listen_begin_next:
  assumes "Listen_begin s backlog i prev e w = (Inr t, w1)"
  shows "lt_next t < fresh w1" and "listening_backlog (states w1 (lt_next t)) = (\<lambda>_. None)"
  using assms
  by (auto simp: Listen_begin_def Let_def allocState_def newState_def
      split: prod.splits sum.splits option.splits if_splits go.splits goerr.splits)

lemma paired_listening:
  assumes start: "Listen_begin s backlog i prev e w = (Inr t, w1)"
    and fr: "fresh w1 \<le> fresh (ln_interfere e w1)"
    and bl: "listening_backlog (states (ln_interfere e w1) (lt_next t))
               = listening_backlog (states w1 (lt_next t))"
    and commit: "Listen_commit t (ln_interfere e w1) = (Return 0, w2)"
    and loop: "hd (tasks w2) = DispatchLoop buffer (lt_ephemeral t) st"
  shows "paired st buffer \<lparr> sv_world = w2, sv_dialing = [], sv_sending = [], sv_receiving = [] \<rparr>"
proof -
  let ?w = "ln_interfere e w1"
  let ?v = "\<lparr> sv_world = w2, sv_dialing = [], sv_sending = [], sv_receiving = [] \<rparr>"
  note w2 = Listen_commit_started(1) [OF commit]
  have names: "buffer = fresh ?w" "st = lt_next t"
    using loop by (simp_all add: w2 spawn_def)
  have f: "fresh w2 = Suc (fresh ?w)" "states w2 = states ?w"
    "chan_buf (chans w2 (fresh ?w)) = []"
    by (simp_all add: w2 spawn_def makeChan_def CompareAndSwap_def)
  have none: "listening_backlog (states w2 st) = (\<lambda>_. None)"
    using Listen_begin_next(2) [OF start] bl by (simp add: f names)
  have no: "\<not> chan_for st ?v c k" for c k
    by (simp add: chan_for_def none)
  show ?thesis
  proof (rule pairedI)
    show "st < fresh (sv_world ?v)" "buffer < fresh (sv_world ?v)"
      using Listen_begin_next(1) [OF start] fr by (simp_all add: f names)
    show "distinct (chan_buf (chans (sv_world ?v) buffer) @ sv_dialing ?v)"
      by (simp add: f names)
    show "p < fresh (sv_world ?v) \<and> proxy_process (proxies (sv_world ?v) p) = None"
      if "p \<in> set (chan_buf (chans (sv_world ?v) buffer)) \<or> p \<in> set (sv_dialing ?v)" for p
      using that by (simp add: f names)
    show "k = k'" if "chan_for st ?v c k" for c k k'
      using that no by blast
    show "c < fresh (sv_world ?v) \<and> c \<noteq> buffer" if "chan_for st ?v c k" for c k
      using that no by blast
    show "q < fresh (sv_world ?v) \<and> proxy_key (sv_world ?v) q = Some k"
      if "chan_for st ?v c k" for c k q
      using that no by blast
    show "p < fresh (sv_world ?v) \<and> proxy_key (sv_world ?v) p = Some k"
      if "(c, p, k, l) \<in> set (sv_sending ?v)" for c p k l
      using that by simp
  qed
qed

lemma served_paired:
  "served st buffer v \<Longrightarrow> paired st buffer v"
proof (induction rule: served.induct)
  case (listening s backlog i prev e w t w1 w2)
  then show ?case by (rule paired_listening)
next
  case (step v v')
  then show ?case using serve_paired by blast
qed

lemma serve_reported:
  assumes "serve st buffer v v'"
    and old: "\<And>s ch a r l e. (s, ch, a, r, l, e) \<in> set (sv_receiving v) \<Longrightarrow>
           \<exists>sa. ac_accept4 e = Inr (r, sa) \<and> a = unmapped (sockaddr_AddrPort sa)"
    and mem: "x \<in> set (sv_receiving v')"
  shows "\<exists>sa. ac_accept4 (snd (snd (snd (snd (snd x))))) = Inr (fst (snd (snd (snd x))), sa)
              \<and> fst (snd (snd x)) = unmapped (sockaddr_AddrPort sa)"
proof -
  have kept: ?thesis if "x \<in> set (sv_receiving v)"
    using old [of "fst x" "fst (snd x)" "fst (snd (snd x))" "fst (snd (snd (snd x)))"
        "fst (snd (snd (snd (snd x))))" "snd (snd (snd (snd (snd x))))"] that
    by simp
  from assms(1) show ?thesis
  proof cases
    case (external xc w')
    then show ?thesis using mem kept by simp
  next
    case (exited lis)
    then show ?thesis using mem kept by simp
  next
    case (take p w')
    then show ?thesis using mem kept by simp
  next
    case (dial_failed p w')
    then show ?thesis using mem kept by simp
  next
    case (registered p pc ch k l w')
    then show ?thesis using mem kept by simp
  next
    case (sender_delete ch p k)
    then show ?thesis using mem kept by simp
  next
    case (sent ch p k w')
    then show ?thesis using mem kept by simp
  next
    case (accepting s' flags e' ch' a' r' l' w')
    have "x = (s', ch', a', r', l', e') \<or> x \<in> set (sv_receiving v)"
      using mem unfolding accepting(1) by (simp del: split_paired_All split_paired_Ex)
    then show ?thesis
    proof
      assume "x = (s', ch', a', r', l', e')"
      then show ?thesis
        using Accept_begin_address [OF accepting(2)] by simp
    qed (rule kept)
  next
    case (receiver_delete s' ch' a' r' e')
    have "x = (s', ch', a', r', False, e') \<or> x \<in> set (remove1 (s', ch', a', r', True, e') (sv_receiving v))"
      using mem unfolding receiver_delete(1) by simp
    then show ?thesis
    proof
      assume "x = (s', ch', a', r', False, e')"
      then show ?thesis
        using old [OF receiver_delete(2)] by simp
    next
      assume "x \<in> set (remove1 (s', ch', a', r', True, e') (sv_receiving v))"
      then show ?thesis
        by (rule kept [OF in_remove1])
    qed
  next
    case (received s' ch' a' r' e' res w')
    have "x \<in> set (remove1 (s', ch', a', r', False, e') (sv_receiving v))"
      using mem unfolding received(1) by simp
    then show ?thesis
      by (rule kept [OF in_remove1])
  next
    case (others w')
    then show ?thesis using mem kept by simp
  qed
qed

lemma served_member:
  "served st buffer v \<Longrightarrow> x \<in> set (sv_receiving v) \<Longrightarrow>
     \<exists>sa. ac_accept4 (snd (snd (snd (snd (snd x))))) = Inr (fst (snd (snd (snd x))), sa)
          \<and> fst (snd (snd x)) = unmapped (sockaddr_AddrPort sa)"
proof (induction arbitrary: x rule: served.induct)
  case (listening s0 backlog i prev e0 w t w1 w2)
  then show ?case by simp
next
  case (step v v')
  have "\<exists>sa. ac_accept4 e = Inr (r, sa) \<and> a = unmapped (sockaddr_AddrPort sa)"
    if "(s, ch, a, r, l, e) \<in> set (sv_receiving v)" for s ch a r l e
    using step.IH [OF that] by simp
  from serve_reported [OF step.hyps(2) this step.prems] show ?case .
qed

lemma served_reported:
  assumes "served st buffer v" and "(s, ch, a, r, l, e) \<in> set (sv_receiving v)"
  shows "\<exists>sa. ac_accept4 e = Inr (r, sa) \<and> a = unmapped (sockaddr_AddrPort sa)"
  using served_member [OF assms] by simp

lemma Accept_end_received:
  assumes "Accept_end s ch a r e w = Some (res, w')"
    and "chan_buf (chans w ch) = p # rest"
    and "proxy_process (proxies w p) = Some pc"
    and "TCPAddr_String (conn_local pc) = AddrPort_String a"
  shows "res \<noteq> NoChild Panic"
    and "res = Child child \<Longrightarrow>
           connected_proxy (states w' (Load (sock_Inode (sockets w' child)) w')) = Some p"
proof -
  let ?w1 = "w\<lparr> chans := (chans w)(ch := (chans w ch)\<lparr> chan_buf := rest \<rparr>) \<rparr>"
  let ?f = "sock_FD (sockets w s)"
  have eq: "res = fst (Accept_child s p r e ?w1)"
    "w' = DecRef ?f (snd (Accept_child s p r e ?w1))"
    using assms by (simp_all add: Accept_end_def Let_def case_prod_beta)
  show "res \<noteq> NoChild Panic"
    by (simp add: eq Accept_child_result)
  show "connected_proxy (states w' (Load (sock_Inode (sockets w' child)) w')) = Some p"
    if "res = Child child"
  proof -
    have "Accept_child s p r e ?w1 = (Child child, snd (Accept_child s p r e ?w1))"
      using that eq(1) by (simp add: prod_eq_iff)
    from Accept_child_proxy [OF this] show ?thesis
      by (simp add: eq(2) DecRef_def Load_def)
  qed
qed


text \<open>
  C7. In every serving that a \<open>Listen\<close> leads to, when an \<open>Accept\<close> call receives a proxy
  from its channel, the assertion of line 682 holds: the call does not panic. When it
  returns a child socket, the state of the child's inode holds that proxy, the proxy has
  its process-side connection, and the local address of that connection is the address
  that \<open>accept4\<close> reported to this call, both taken as IPv4 when they are IPv4-mapped (lines
  617 and 671); their texts, which line 682 compares, are the same.
\<close>

theorem Accept_proxy_matches:
  assumes "served st buffer v"
    and "(s, ch, a, r, False, e) \<in> set (sv_receiving v)"
    and "Accept_end s ch a r e (sv_world v) = Some (res, w')"
  shows "res \<noteq> NoChild Panic
       \<and> (\<forall>child. res = Child child \<longrightarrow>
            (\<exists>p pc sa.
               connected_proxy (states w' (Load (sock_Inode (sockets w' child)) w')) = Some p
               \<and> proxy_process (proxies w' p) = Some pc
               \<and> ac_accept4 e = Inr (r, sa)
               \<and> unmapped (conn_local pc) = unmapped (sockaddr_AddrPort sa)
               \<and> TCPAddr_String (conn_local pc)
                   = AddrPort_String (unmapped (sockaddr_AddrPort sa))))"
proof -
  have inv: "paired st buffer v"
    using assms(1) by (rule served_paired)
  obtain sa where sa: "ac_accept4 e = Inr (r, sa)" "a = unmapped (sockaddr_AddrPort sa)"
    using served_reported [OF assms(1) assms(2)] by blast
  have ch: "chan_for st v ch a"
    unfolding chan_for_def using assms(2) by blast
  obtain p rest where buf: "chan_buf (chans (sv_world v) ch) = p # rest"
    using Accept_end_facts(1) [OF assms(3)] by blast
  then have "p \<in> set (chan_buf (chans (sv_world v) ch))"
    by simp
  from paired_chan_buf [OF inv ch this] have key: "proxy_key (sv_world v) p = Some a"
    by simp
  then obtain pc where pc: "proxy_process (proxies (sv_world v) p) = Some pc"
    using proxy_key_Some by blast
  have parsed: "map_option unmapped (ParseAddrPort (TCPAddr_String (conn_local pc))) = Some a"
    using key pc by (simp add: proxy_key_def)
  have printed: "TCPAddr_String (conn_local pc) = AddrPort_String a"
    using parsed by (rule key_text)
  have same: "unmapped (conn_local pc) = a"
    using parsed by (rule key_addr)
  note r = Accept_end_received [OF assms(3) buf pc printed]
  have pc': "proxy_process (proxies w' p) = Some pc"
    using Accept_end_facts(3) [OF assms(3)] pc by simp
  show ?thesis
  proof (intro conjI allI impI)
    show "res \<noteq> NoChild Panic" by (rule r(1))
    fix child assume "res = Child child"
    from r(2) [OF this]
    have "connected_proxy (states w' (Load (sock_Inode (sockets w' child)) w')) = Some p
          \<and> proxy_process (proxies w' p) = Some pc
          \<and> ac_accept4 e = Inr (r, sa)
          \<and> unmapped (conn_local pc) = unmapped (sockaddr_AddrPort sa)
          \<and> TCPAddr_String (conn_local pc) = AddrPort_String (unmapped (sockaddr_AddrPort sa))"
      using pc' sa printed same by simp
    then show "\<exists>p pc sa.
               connected_proxy (states w' (Load (sock_Inode (sockets w' child)) w')) = Some p
               \<and> proxy_process (proxies w' p) = Some pc
               \<and> ac_accept4 e = Inr (r, sa)
               \<and> unmapped (conn_local pc) = unmapped (sockaddr_AddrPort sa)
               \<and> TCPAddr_String (conn_local pc)
                   = AddrPort_String (unmapped (sockaddr_AddrPort sa))"
      by blast
  qed
qed


text \<open>
  A run on the sample socket: \<open>listen(fd, 128)\<close> installs the state 14 and makes the
  buffer 15; the accept loop pushes the proxy 16; the dispatch loop takes it, dials the
  ephemeral address from 127.0.0.1:40003 and stores the new channel 17 under that address,
  then sends the proxy; \<open>accept4\<close> reports the peer 127.0.0.1:40003 to an \<open>Accept\<close>, which
  loads the channel 17, deletes the entry, receives the proxy and returns the child
  socket 22.
\<close>

lemma world_begun_fields:
  "fst (Listen_begin 13 128 12 11 listen_quiet world1) = Inr ticket1"
  "fresh world_begun = 15"
  "states world_begun 14
     = (newState StateListening) \<lparr> listening_active := True, listening_lis := Some 9 \<rparr>"
  "inodes world_begun = inodes world1" "sockets world_begun = sockets world1"
  "fd_closing (fds world_begun 10) = False"
  "exhausted world_begun = exhausted world1"
  by (simp_all add: world_begun_def ticket1_def Listen_begin_def listen_quiet_def
      ephemeral_ok_def bindEphemeral_def IncRef_def DecRef_def world1_fields newState_def
      unix_defs Let_def allocState_def word_sless_alt)

lemma world_serving_fields:
  "fst (Listen_commit ticket1 world_begun) = Return 0"
  "fresh world_serving = 16"
  "chans world_serving 15 = \<lparr> chan_cap = 256, chan_buf = [], chan_closed = False \<rparr>"
  "states world_serving = states world_begun"
  "inode_state (inodes world_serving 12) = 14"
  "sockets world_serving = sockets world1"
  "fds world_serving = fds world_begun"
  "hd (tasks world_serving) = DispatchLoop 15 (Addr4 2130706433, 40000) 14"
  by (simp_all add: world_serving_def ticket1_def Listen_commit_def CompareAndSwap_def
      make_refused_def maxAlloc_def hchanSize_def makeChan_def spawn_def Let_def
      world_begun_fields world1_fields)

lemma world_pushed_fields:
  "AcceptLoop_push 15 conn_in world_serving = Some world_pushed"
  "fresh world_pushed = 17"
  "chans world_pushed 15 = \<lparr> chan_cap = 256, chan_buf = [16], chan_closed = False \<rparr>"
  "states world_pushed = states world_serving"
  "inodes world_pushed = inodes world_serving"
  "sockets world_pushed = sockets world_serving"
  "fds world_pushed = fds world_serving"
  by (simp_all add: world_pushed_def AcceptLoop_push_def newProxy_def chan_send_def Let_def
      world_serving_fields)

lemma world_taken_fields:
  "DispatchLoop_take 15 world_pushed = Some (16, world_taken)"
  "fresh world_taken = 17"
  "states world_taken = states world_pushed"
  "inodes world_taken = inodes world_pushed"
  "sockets world_taken = sockets world_pushed"
  "fds world_taken = fds world_pushed"
  by (simp_all add: world_taken_def DispatchLoop_take_def world_pushed_fields)

lemma world_registered_fields:
  "fst (Dispatch_dial 14 16 (Some conn_dialed) world_taken) = Registered 17 local1 False"
  "fresh world_registered = 18"
  "chans world_registered 17 = \<lparr> chan_cap = 1, chan_buf = [], chan_closed = False \<rparr>"
  "proxy_process (proxies world_registered 16) = Some conn_dialed"
  "state (states world_registered 14) = StateListening"
  "listening_active (states world_registered 14)"
  "listening_backlog (states world_registered 14) local1 = Some 17"
  "inodes world_registered = inodes world_taken"
  "sockets world_registered = sockets world_taken"
  "fds world_registered = fds world_taken"
  by (simp_all add: world_registered_def Dispatch_dial_def conn_dialed_def local1_def
      TCPAddr_String_def ParseAddrPort_def unmapped_def makeChan_def backlog_LoadOrStore_def
      Let_def world_taken_fields world_pushed_fields world_serving_fields
      world_begun_fields newState_def)

lemma world_sent_fields:
  "chan_send 17 16 world_registered = Some world_sent"
  "fresh world_sent = 18"
  "chans world_sent 17 = \<lparr> chan_cap = 1, chan_buf = [16], chan_closed = False \<rparr>"
  "proxies world_sent = proxies world_registered"
  "states world_sent = states world_registered"
  "inodes world_sent = inodes world_registered"
  "sockets world_sent = sockets world_registered"
  "fds world_sent = fds world_registered"
  by (simp_all add: world_sent_def chan_send_def world_registered_fields)

lemma accept_ok_reports:
  "unmapped (sockaddr_AddrPort (SockaddrInet4 2130706433 40003)) = local1"
  by (simp add: sockaddr_AddrPort_def unmapped_def local1_def)

lemma world_accepting_fields:
  "fst (Accept_begin 13 0 accept_ok world_sent) = Receiving 14 17 local1 5 True"
  "fresh world_accepting = 19"
  "chans world_accepting 17 = \<lparr> chan_cap = 1, chan_buf = [16], chan_closed = False \<rparr>"
  "proxies world_accepting = proxies world_sent"
  "inodes world_accepting = inodes world_sent"
  "sockets world_accepting = sockets world_sent"
  by (simp_all add: world_accepting_def Accept_begin_def Accept_listening_def accept_ok_def
      IncRef_def Load_def accept_ok_reports makeChan_def
      backlog_LoadOrStore_def Let_def world_sent_fields world_registered_fields
      world_taken_fields world_pushed_fields world_serving_fields world_begun_fields
      world1_fields)

lemma world_deleted_fields:
  "fresh world_deleted = 19"
  "chans world_deleted 17 = \<lparr> chan_cap = 1, chan_buf = [16], chan_closed = False \<rparr>"
  "proxy_process (proxies world_deleted 16) = Some conn_dialed"
  "inodes world_deleted = inodes world_accepting"
  "sockets world_deleted = sockets world_accepting"
  by (simp_all add: world_deleted_def backlog_Delete_def world_accepting_fields
      world_sent_fields world_registered_fields)

lemma world_accepted_fields:
  "Accept_end 13 17 local1 5 accept_ok world_deleted = Some (Child 22, world_accepted)"
  by (simp add: world_accepted_def Accept_end_def Accept_child_def accept_ok_def
      conn_dialed_def local1_def TCPAddr_String_def AddrPort_String_def NewFD_def
      allocState_def newInode_def NewSocket_def Let_def world_deleted_fields)

lemma served_sample:
  "served 14 15 \<lparr> sv_world = world_deleted, sv_dialing = [], sv_sending = [],
                  sv_receiving = [(13, 17, local1, 5, False, accept_ok)] \<rparr>"
proof -
  have bg: "Listen_begin 13 128 12 11 listen_quiet world1 = (Inr ticket1, world_begun)"
    using world_begun_fields(1) by (simp add: prod_eq_iff world_begun_def)
  have quiet: "ln_interfere listen_quiet world_begun = world_begun"
    by (simp add: listen_quiet_def)
  have commit: "Listen_commit ticket1 (ln_interfere listen_quiet world_begun)
                  = (Return 0, world_serving)"
    using world_serving_fields(1) by (simp add: prod_eq_iff world_serving_def quiet)
  have loop: "hd (tasks world_serving) = DispatchLoop 15 (lt_ephemeral ticket1) 14"
    by (simp add: world_serving_fields ticket1_def)
  have s0: "served 14 15 \<lparr> sv_world = world_serving, sv_dialing = [], sv_sending = [],
                           sv_receiving = [] \<rparr>"
    by (rule served.listening [OF bg _ _ commit loop]) (simp_all add: quiet)
  have s1: "served 14 15 \<lparr> sv_world = world_pushed, sv_dialing = [], sv_sending = [],
                           sv_receiving = [] \<rparr>"
    using served.step [OF s0 serve.external [where st = 14]] world_pushed_fields(1) by simp
  have s2: "served 14 15 \<lparr> sv_world = world_taken, sv_dialing = [16], sv_sending = [],
                           sv_receiving = [] \<rparr>"
    using served.step [OF s1 serve.take [where st = 14]] world_taken_fields(1) by simp
  have dial: "Dispatch_dial 14 16 (Some conn_dialed) world_taken
                = (Registered 17 local1 False, world_registered)"
    using world_registered_fields(1) by (simp add: prod_eq_iff world_registered_def)
  have s3: "served 14 15 \<lparr> sv_world = world_registered, sv_dialing = [],
                           sv_sending = [(17, 16, local1, False)], sv_receiving = [] \<rparr>"
    using served.step [OF s2 serve.registered [where buffer = 15 and p = 16]] dial by simp
  have s4: "served 14 15 \<lparr> sv_world = world_sent, sv_dialing = [], sv_sending = [],
                           sv_receiving = [] \<rparr>"
    using served.step [OF s3 serve.sent [where st = 14 and buffer = 15 and ch = 17 and p = 16
          and k = local1]] world_sent_fields(1)
    by simp
  have acc: "Accept_begin 13 0 accept_ok world_sent
               = (Receiving 14 17 local1 5 True, world_accepting)"
    using world_accepting_fields(1) by (simp add: prod_eq_iff world_accepting_def)
  have s5: "served 14 15 \<lparr> sv_world = world_accepting, sv_dialing = [], sv_sending = [],
                           sv_receiving = [(13, 17, local1, 5, True, accept_ok)] \<rparr>"
    using served.step [OF s4 serve.accepting [where buffer = 15]] acc by simp
  show ?thesis
    using served.step [OF s5 serve.receiver_delete [where st = 14 and buffer = 15 and s = 13
          and ch = 17 and a = local1 and r = 5 and e = accept_ok]]
    by (simp add: world_deleted_def)
qed

theorem Accept_proxy_matches_witness:
  "served 14 15 \<lparr> sv_world = world_deleted, sv_dialing = [], sv_sending = [],
                  sv_receiving = [(13, 17, local1, 5, False, accept_ok)] \<rparr>
   \<and> Accept_end 13 17 local1 5 accept_ok world_deleted = Some (Child 22, world_accepted)
   \<and> (\<exists>p pc sa.
         connected_proxy (states world_accepted
            (Load (sock_Inode (sockets world_accepted 22)) world_accepted)) = Some p
         \<and> proxy_process (proxies world_accepted p) = Some pc
         \<and> ac_accept4 accept_ok = Inr (5, sa)
         \<and> unmapped (conn_local pc) = unmapped (sockaddr_AddrPort sa)
         \<and> TCPAddr_String (conn_local pc) = AddrPort_String (unmapped (sockaddr_AddrPort sa)))"
  using Accept_proxy_matches [OF served_sample, of 13 17 local1 5 accept_ok "Child 22" world_accepted]
    served_sample world_accepted_fields
  by simp


section \<open>Socket creation\<close>

text \<open>
  C9. For every domain other than \<open>AF_INET\<close> and \<open>AF_INET6\<close>, \<open>CreateSocket\<close> fails with the
  unsupported-domain error, whatever the kernel would have answered, and the tracer's
  memory is left as it was: no FD, state, inode or socket is allocated.
\<close>

theorem CreateSocket_unsupported_domain:
  "domain \<noteq> AF_INET \<and> domain \<noteq> AF_INET6 \<Longrightarrow>
     CreateSocket domain typ e w = (Inl (ErrUnsupportedDomain domain), w)"
  by (simp add: CreateSocket_def)

theorem CreateSocket_unsupported_domain_witness:
  "AF_UNIX \<noteq> AF_INET \<and> AF_UNIX \<noteq> AF_INET6 \<and>
   CreateSocket AF_UNIX SOCK_STREAM kernel_ok world0 = (Inl (ErrUnsupportedDomain AF_UNIX), world0)"
  using CreateSocket_unsupported_domain [of AF_UNIX SOCK_STREAM kernel_ok world0]
  by (simp add: unix_defs)

end
